theory Spec2Isabelle
  imports Complex_Main
begin

section \<open>Python values used by BLS.py\<close>

text \<open>
  A Python \<open>str\<close> is modelled as a \<open>string\<close> whose characters are code points below 256;
  \<open>ord\<close> reads the code point. Python's \<open>int\<close> is \<open>int\<close>. A Python \<open>float\<close> is
  modelled as a \<open>real\<close>. Two comparisons of floats decide something in the program. In
  \<open>(seed % 100) / 100.0 > 0.85\<close> IEEE division is correctly rounded, so that \<open>85 / 100.0\<close>
  is the very double the literal \<open>0.85\<close> denotes, and the comparison agrees with the one
  on the exact quotients. In \<open>random.random() > 0.78\<close> the left side is a multiple of
  \<open>2 ^ -53\<close> and the right side the double nearest to 0.78, which is given as it is.
\<close>

datatype pyerr =
    ValueError string
  | IndexError string
  | RuntimeError string
  | NotImplementedError string
  | OverflowError string
  | FileNotFoundError

definition ord :: "char \<Rightarrow> int" where
  "ord c = of_char c"

definition newline :: string where
  "newline = [CHR 0x0A]"

definition digits :: string where
  "digits = ''0123456789''"

definition digit_char :: "nat \<Rightarrow> char" where
  "digit_char d = digits ! d"

text \<open>
  \<open>str(n)\<close> for an integer: decimal digits, most significant first, \<open>-\<close> in front of a
  negative number. The interpreter refuses to convert an integer of more than 4300 digits.
  The balances the program holds come from the list of tiers or from \<open>int()\<close>, which admits no
  longer ones, and the counts it prints are lengths of lists; the one integer of any size
  that reaches a conversion is the year of \<open>random_expiry\<close>, where the limit is checked.
\<close>

fun str_nat :: "nat \<Rightarrow> string" where
  "str_nat n = (if n < 10 then [digit_char n] else str_nat (n div 10) @ [digit_char (n mod 10)])"

declare str_nat.simps [simp del]

definition str_int :: "int \<Rightarrow> string" where
  "str_int i = (if i < 0 then CHR ''-'' # str_nat (nat (- i)) else str_nat (nat i))"

definition max_str_digits :: nat where
  "max_str_digits = 4300"

definition format_int :: "int \<Rightarrow> pyerr + string" where
  "format_int i =
     (if max_str_digits < length (str_nat (nat \<bar>i\<bar>))
      then Inl (ValueError (''Exceeds the limit (4300 digits) for integer string conversion; ''
                  @ ''use sys.set_int_max_str_digits() to increase the limit''))
      else Inr (str_int i))"

text \<open>The characters \<open>str.strip()\<close> removes: those for which \<open>str.isspace\<close> holds, among the
  code points below 256.\<close>

definition is_space :: "char \<Rightarrow> bool" where
  "is_space c = (of_char c \<in> set [9, 10, 11, 12, 13, 28, 29, 30, 31, 32, 133, 160 :: nat])"

definition lstrip :: "string \<Rightarrow> string" where
  "lstrip s = dropWhile is_space s"

definition rstrip :: "string \<Rightarrow> string" where
  "rstrip s = rev (dropWhile is_space (rev s))"

definition strip :: "string \<Rightarrow> string" where
  "strip s = lstrip (rstrip s)"

text \<open>\<open>s.lstrip(chars)\<close>: every leading character that occurs in \<open>chars\<close> goes.\<close>

definition lstrip_chars :: "string \<Rightarrow> string \<Rightarrow> string" where
  "lstrip_chars chars s = dropWhile (\<lambda>c. c \<in> set chars) s"

text \<open>\<open>s.split(sep)\<close> for a separator of one character: never an empty list.\<close>

fun split_on :: "char \<Rightarrow> string \<Rightarrow> string list" where
  "split_on sep [] = [[]]"
| "split_on sep (c # cs) =
     (if c = sep then [] # split_on sep cs
      else (case split_on sep cs of
              w # ws \<Rightarrow> (c # w) # ws
            | [] \<Rightarrow> [[c]]))"

definition is_digit :: "char \<Rightarrow> bool" where
  "is_digit c = (c \<in> set digits)"

definition digit_value :: "char \<Rightarrow> nat" where
  "digit_value c = of_char c - 48"

definition parse_nat :: "string \<Rightarrow> nat" where
  "parse_nat ds = foldl (\<lambda>a c. 10 * a + digit_value c) 0 ds"

text \<open>
  \<open>repr(s)\<close> of a string: single quotes, unless the string holds a single quote and no
  double quote; the backslash and the chosen quote are escaped, tab, line feed and carriage
  return are written \<open>\t\<close>, \<open>\n\<close>, \<open>\r\<close>, and every other code point that is not printable
  (below 32, from 127 to 160, and 173) is written \<open>\xNN\<close> in lower-case hexadecimal.
\<close>

definition hex_digit :: "nat \<Rightarrow> char" where
  "hex_digit n = ''0123456789abcdef'' ! n"

definition is_printable :: "char \<Rightarrow> bool" where
  "is_printable c = (let n = of_char c :: nat in (32 \<le> n \<and> n < 127) \<or> (161 \<le> n \<and> n \<noteq> 173))"

definition repr_char :: "char \<Rightarrow> char \<Rightarrow> string" where
  "repr_char quote c =
     (if c = quote \<or> c = CHR 0x5C then [CHR 0x5C, c]
      else if c = CHR 0x09 then [CHR 0x5C, CHR ''t'']
      else if c = CHR 0x0A then [CHR 0x5C, CHR ''n'']
      else if c = CHR 0x0D then [CHR 0x5C, CHR ''r'']
      else if is_printable c then [c]
      else [CHR 0x5C, CHR ''x'', hex_digit (of_char c div 16), hex_digit (of_char c mod 16)])"

definition py_repr :: "string \<Rightarrow> string" where
  "py_repr s =
     (let quote = (if CHR 0x27 \<in> set s \<and> CHR 0x22 \<notin> set s then CHR 0x22 else CHR 0x27)
      in quote # concat (map (repr_char quote) s) @ [quote])"

text \<open>
  \<open>int(s)\<close> in base 10. The whitespace it skips at both ends is that of the C locale, with
  the two Latin-1 spaces 0x85 and 0xA0; unlike \<open>str.strip()\<close> it does not skip the
  separators 0x1C to 0x1F. One sign is allowed. The scan then runs over digits and
  underscores: an underscore in front, two in a row or one at the end make the literal
  invalid; more than 4300 digits are refused, by the interpreter's limit on conversions
  (its default, which the program does not change); and anything left behind the scanned
  run makes the literal invalid. The checks are made in this order, as the interpreter
  makes them. The message of an invalid literal shows the first 200 characters of
  \<open>repr(s)\<close>.
\<close>

definition is_int_space :: "char \<Rightarrow> bool" where
  "is_int_space c = (of_char c \<in> set [9, 10, 11, 12, 13, 32, 133, 160 :: nat])"

definition int_strip :: "string \<Rightarrow> string" where
  "int_strip s = dropWhile is_int_space (rev (dropWhile is_int_space (rev s)))"

definition literal_char :: "char \<Rightarrow> bool" where
  "literal_char c = (is_digit c \<or> c = CHR ''_'')"

definition invalid_literal :: "string \<Rightarrow> pyerr" where
  "invalid_literal s =
     ValueError (''invalid literal for int() with base 10: '' @ take 200 (py_repr s))"

definition exceeds_limit :: "nat \<Rightarrow> pyerr" where
  "exceeds_limit n =
     ValueError (''Exceeds the limit (4300 digits) for integer string conversion: value has ''
       @ str_int (int n) @ '' digits; use sys.set_int_max_str_digits() to increase the limit'')"

definition py_int :: "string \<Rightarrow> pyerr + int" where
  "py_int s =
     (let t = int_strip s;
          neg = (t \<noteq> [] \<and> hd t = CHR ''-'');
          body = (if t \<noteq> [] \<and> (hd t = CHR ''-'' \<or> hd t = CHR ''+'') then tl t else t);
          run = takeWhile literal_char body;
          rest = dropWhile literal_char body;
          groups = split_on CHR ''_'' run;
          n = length (concat groups)
      in if \<not> list_all (\<lambda>g. g \<noteq> []) groups then Inl (invalid_literal s)
         else if max_str_digits < n then Inl (exceeds_limit n)
         else if rest \<noteq> [] then Inl (invalid_literal s)
         else Inr ((if neg then - 1 else 1) * int (parse_nat (concat groups))))"


section \<open>Configuration\<close>

definition REAL_INTEGRATION_ENABLED :: bool where
  "REAL_INTEGRATION_ENABLED = False"

section \<open>BLSRecord\<close>

text \<open>The fields \<open>__init__\<close> sets; \<open>generated_at\<close> is the reading of \<open>datetime.utcnow()\<close>.\<close>

record BLSRecord =
  code :: string
  expiry :: string
  ref :: string
  balance :: int
  generated_at :: int

definition BLSRecord_init :: "string \<Rightarrow> string \<Rightarrow> string \<Rightarrow> int \<Rightarrow> int \<Rightarrow> BLSRecord" where
  "BLSRecord_init c e r b now =
     \<lparr>code = c, expiry = e, ref = r, balance = b, generated_at = now\<rparr>"

text \<open>\<open>__str__\<close>: \<open>f"{self.code}|{self.expiry}|{self.ref}|${self.balance}"\<close>.\<close>

definition BLSRecord_str :: "BLSRecord \<Rightarrow> string" where
  "BLSRecord_str r = code r @ ''|'' @ expiry r @ ''|'' @ ref r @ ''|$'' @ str_int (balance r)"

section \<open>simulate\_check\<close>

text \<open>
  \<open>time.sleep(secs)\<close> raises for a negative duration and for one beyond what the clock
  holds (\<open>2 ^ 63 - 1\<close> nanoseconds); otherwise it waits, and the wait is not part of the
  model.
\<close>

definition sleep_max :: real where
  "sleep_max = (2 ^ 63 - 1) / 10 ^ 9"

definition time_sleep :: "real \<Rightarrow> pyerr + unit" where
  "time_sleep secs =
     (if secs < 0 then Inl (ValueError ''sleep length must be non-negative'')
      else if secs > sleep_max
      then Inl (OverflowError ''timestamp out of range for platform time_t'')
      else Inr ())"

text \<open>\<open>simulate_check(record, delay=0.25)\<close>. Every caller in the program uses the default
  delay.\<close>

definition default_delay :: real where
  "default_delay = 0.25"

definition simulate_check :: "BLSRecord \<Rightarrow> real \<Rightarrow> pyerr + string option" where
  "simulate_check rec delay =
     (let seed = sum_list (map ord (code rec));
          rnd = real_of_int (seed mod 100) / 100.0
      in case time_sleep (delay * (0.5 + rnd)) of
           Inl e \<Rightarrow> Inl e
         | Inr u \<Rightarrow>
             if rnd > 0.85 \<or> balance rec \<ge> 120
             then Inr (Some (''HIT: '' @ code rec @ ''|'' @ expiry rec @ ''|'' @ ref rec
                              @ ''|$'' @ str_int (balance rec)))
             else Inr None)"

text \<open>The score as the specification words it: the sum of the identifier's character
  codes, reduced modulo 100 and normalised to the interval from 0 to 1.\<close>

definition score :: "string \<Rightarrow> real" where
  "score ident = real_of_int (sum_list (map ord ident) mod 100) / 100"

definition accepted :: "BLSRecord \<Rightarrow> bool" where
  "accepted rec = (\<exists>s. simulate_check rec default_delay = Inr (Some s))"

section \<open>The real-integration template\<close>

text \<open>\<open>real_book_request(record, user_data)\<close>; the module-level flag it reads is passed
  in. A response is a dictionary with string keys and values.\<close>

type_synonym pydict = "(string \<times> string) list"

definition real_book_request :: "bool \<Rightarrow> BLSRecord \<Rightarrow> pydict \<Rightarrow> pyerr + pydict" where
  "real_book_request enabled rec user_data =
     (if \<not> enabled
      then Inl (RuntimeError
        ''Real integration disabled by configuration (REAL_INTEGRATION_ENABLED=False).'')
      else Inl (NotImplementedError
        ''Implement real_book_request with official API call if you have legal access.''))"

section \<open>Randomness and the clock\<close>

text \<open>
  The module \<open>random\<close> is a source of draws, modelled as an endless sequence of natural
  numbers that each call consumes from the front; every value a call can return is
  reached by some sequence. \<open>datetime.utcnow()\<close> is a function of the number of records
  constructed so far.
\<close>

type_synonym rng = "nat \<Rightarrow> nat"

definition shift :: "nat \<Rightarrow> rng \<Rightarrow> rng" where
  "shift n g = (\<lambda>i. g (i + n))"

text \<open>\<open>random_string(n)\<close>: \<open>''.join(random.choices(string.digits, k=n))\<close>.\<close>

definition random_string :: "nat \<Rightarrow> rng \<Rightarrow> string \<times> rng" where
  "random_string n g = (map (\<lambda>i. digits ! (g i mod length digits)) [0..<n], shift n g)"

text \<open>\<open>random.randint(a, b)\<close>, which raises on an empty range.\<close>

definition randint :: "int \<Rightarrow> int \<Rightarrow> rng \<Rightarrow> pyerr + (int \<times> rng)" where
  "randint a b g =
     (if b < a
      then Inl (ValueError (''empty range for randrange() ('' @ str_int a @ '', ''
                  @ str_int (b + 1) @ '', '' @ str_int (b + 1 - a) @ '')''))
      else Inr (a + int (g 0 mod nat (b - a + 1)), shift 1 g))"

text \<open>The format \<open>{month:02d}\<close>: zeros in front up to a width of two.\<close>

definition fmt_02d :: "int \<Rightarrow> string" where
  "fmt_02d i = replicate (2 - length (str_int i)) CHR ''0'' @ str_int i"

definition random_expiry :: "int \<Rightarrow> int \<Rightarrow> rng \<Rightarrow> pyerr + (string \<times> rng)" where
  "random_expiry start_year years g =
     (case randint start_year (start_year + years - 1) g of
        Inl e \<Rightarrow> Inl e
      | Inr (year, g1) \<Rightarrow>
          (case randint 1 12 g1 of
             Inl e \<Rightarrow> Inl e
           | Inr (month, g2) \<Rightarrow>
               (case format_int year of
                  Inl e \<Rightarrow> Inl e
                | Inr y \<Rightarrow> Inr (fmt_02d month @ ''/'' @ y, g2))))"

definition balance_tiers :: "int list" where
  "balance_tiers = [0, 10, 25, 69, 120, 180, 280]"

section \<open>generate\_blscodes\<close>

definition OUTPUT_FILE :: string where
  "OUTPUT_FILE = ''bls_generated_list.txt''"

definition VALID_OUTPUT_FILE :: string where
  "VALID_OUTPUT_FILE = ''bls_valid_hits.txt''"

text \<open>The loop \<open>for _ in range(count)\<close>; \<open>k\<close> counts the records constructed before.\<close>

fun generate_loop ::
  "nat \<Rightarrow> int \<Rightarrow> (nat \<Rightarrow> int) \<Rightarrow> nat \<Rightarrow> rng \<Rightarrow> pyerr + (BLSRecord list \<times> rng)" where
  "generate_loop 0 start_year now k g = Inr ([], g)"
| "generate_loop (Suc n) start_year now k g =
     (case random_string 16 g of (c, g1) \<Rightarrow>
      (case random_expiry start_year 6 g1 of
         Inl e \<Rightarrow> Inl e
       | Inr (e, g2) \<Rightarrow>
           (case random_string 3 g2 of (r, g3) \<Rightarrow>
            (let b = balance_tiers ! (g3 0 mod length balance_tiers);
                 rec = BLSRecord_init c e r b (now k)
             in case generate_loop n start_year now (Suc k) (shift 1 g3) of
                  Inl err \<Rightarrow> Inl err
                | Inr (rs, g') \<Rightarrow> Inr (rec # rs, g')))))"

text \<open>\<open>generate_blscodes(count, start_year)\<close> returns the records; the second component
  is the new content of \<open>OUTPUT_FILE\<close>, line by line as written.\<close>

definition generate_blscodes ::
  "int \<Rightarrow> int \<Rightarrow> (nat \<Rightarrow> int) \<Rightarrow> rng \<Rightarrow> pyerr + (BLSRecord list \<times> string list)" where
  "generate_blscodes count start_year now g =
     (case generate_loop (nat count) start_year now 0 g of
        Inl e \<Rightarrow> Inl e
      | Inr (results, g') \<Rightarrow> Inr (results, map (\<lambda>r. BLSRecord_str r @ newline) results))"

section \<open>Reading the record list\<close>

text \<open>
  A text file is the list of lines that iterating over it yields, each with its line
  end. \<open>[line.strip() for line in f if line.strip()]\<close>:
\<close>

definition read_lines :: "string list \<Rightarrow> string list" where
  "read_lines f = map strip (filter (\<lambda>line. strip line \<noteq> []) f)"

text \<open>
  \<open>code, expiry, ref, bal = parts[0], parts[1], parts[2], parts[3].lstrip('$')\<close> and
  \<open>BLSRecord(code, expiry, ref, int(bal))\<close>, as both command handlers have it: an index
  out of range raises \<open>IndexError\<close>, a balance that is no integer \<open>ValueError\<close>.
\<close>

definition record_of_parts :: "int \<Rightarrow> string list \<Rightarrow> pyerr + BLSRecord" where
  "record_of_parts now parts =
     (if length parts < 4 then Inl (IndexError ''list index out of range'')
      else (case py_int (lstrip_chars ''$'' (parts ! 3)) of
              Inl e \<Rightarrow> Inl e
            | Inr b \<Rightarrow> Inr (BLSRecord_init (parts ! 0) (parts ! 1) (parts ! 2) b now)))"

text \<open>The loop of \<open>handle_simulate_check\<close> over the lines, with its guard
  \<open>if len(parts) >= 4\<close>.\<close>

fun load_records :: "(nat \<Rightarrow> int) \<Rightarrow> nat \<Rightarrow> string list \<Rightarrow> pyerr + BLSRecord list" where
  "load_records now k [] = Inr []"
| "load_records now k (line # rest) =
     (let parts = split_on CHR ''|'' line
      in if length parts \<ge> 4
         then (case record_of_parts (now k) parts of
                 Inl e \<Rightarrow> Inl e
               | Inr r \<Rightarrow>
                   (case load_records now (Suc k) rest of
                      Inl e \<Rightarrow> Inl e
                    | Inr rs \<Rightarrow> Inr (r # rs)))
         else load_records now k rest)"

section \<open>The worker pool\<close>

text \<open>
  \<open>multi_thread_check\<close> runs a main thread and the worker threads it starts, all acting on
  two \<open>queue.Queue\<close> objects. The model is an interleaving of atomic steps, one thread at
  a time, chosen by a schedule; each step is one operation on the shared queues, which
  the queues' own locks make atomic. A worker's position in \<open>worker_check\<close>:
  \<^item> \<open>Idle\<close>: at the top of the loop, about to call \<open>q.get_nowait()\<close>;
  \<^item> \<open>Holding r\<close>: it has taken \<open>r\<close> and is about to evaluate it and put the result;
  \<^item> \<open>Marking\<close>: about to call \<open>q.task_done()\<close>;
  \<^item> \<open>Exited\<close>: returned after \<open>queue.Empty\<close>;
  \<^item> \<open>Crashed e\<close>: the thread ended with the uncaught exception \<open>e\<close>
    (\<open>worker_check\<close> has no handler other than the one for \<open>queue.Empty\<close>).
  The main thread is in the loop that starts the workers and then in \<open>q.join()\<close>
  (\<open>Starting\<close>), in the loop that empties \<open>out_q\<close> (\<open>Draining found\<close>), or has returned
  (\<open>Returned found\<close>). Logging is not modelled.
\<close>

datatype wstate = Idle | Holding BLSRecord | Marking | Exited | Crashed pyerr

datatype mstate = Starting | Draining "string list" | Returned "string list"

record pool =
  q_items :: "BLSRecord list"
  unfinished_tasks :: nat
  out_items :: "string list"
  workers :: "wstate list"
  range_len :: nat
  main_pc :: mstate
  hits_file :: string

text \<open>The state after every record has been put on \<open>q\<close> and \<open>range(min(threads,
  len(records)))\<close> has been evaluated; a range with a bound below 1 is empty.\<close>

definition init_pool :: "BLSRecord list \<Rightarrow> int \<Rightarrow> string \<Rightarrow> pool" where
  "init_pool records threads vf =
     \<lparr>q_items = records, unfinished_tasks = length records, out_items = [], workers = [],
      range_len = nat (min threads (int (length records))), main_pc = Starting,
      hits_file = vf\<rparr>"

text \<open>The main thread can move while it has workers to start, when \<open>q.join()\<close> sees the
  count of unfinished tasks at zero, and while it drains and writes.\<close>

definition main_enabled :: "pool \<Rightarrow> bool" where
  "main_enabled s =
     (case main_pc s of
        Starting \<Rightarrow> length (workers s) < range_len s \<or> unfinished_tasks s = 0
      | Draining found \<Rightarrow> True
      | Returned found \<Rightarrow> False)"

definition main_step :: "pool \<Rightarrow> pool" where
  "main_step s =
     (case main_pc s of
        Starting \<Rightarrow>
          if length (workers s) < range_len s then s\<lparr>workers := workers s @ [Idle]\<rparr>
          else if unfinished_tasks s = 0 then s\<lparr>main_pc := Draining []\<rparr>
          else s
      | Draining found \<Rightarrow>
          (case out_items s of
             x # rest \<Rightarrow> s\<lparr>out_items := rest, main_pc := Draining (found @ [x])\<rparr>
           | [] \<Rightarrow>
               s\<lparr>hits_file :=
                    (if found \<noteq> []
                     then hits_file s @ concat (map (\<lambda>line. line @ newline) found)
                     else hits_file s),
                  main_pc := Returned found\<rparr>)
      | Returned found \<Rightarrow> s)"

text \<open>One step of worker \<open>i\<close>; \<open>ev\<close> is the evaluation the worker calls, which in the
  program is \<open>simulate_check(record)\<close>.\<close>

definition worker_step :: "(BLSRecord \<Rightarrow> pyerr + string option) \<Rightarrow> nat \<Rightarrow> pool \<Rightarrow> pool" where
  "worker_step ev i s =
     (if i < length (workers s) then
        (case workers s ! i of
           Idle \<Rightarrow>
             (case q_items s of
                [] \<Rightarrow> s\<lparr>workers := (workers s)[i := Exited]\<rparr>
              | r # rest \<Rightarrow> s\<lparr>q_items := rest, workers := (workers s)[i := Holding r]\<rparr>)
         | Holding r \<Rightarrow>
             (case ev r of
                Inl e \<Rightarrow> s\<lparr>workers := (workers s)[i := Crashed e]\<rparr>
              | Inr result \<Rightarrow>
                  (case result of
                     None \<Rightarrow> s\<lparr>workers := (workers s)[i := Marking]\<rparr>
                   | Some line \<Rightarrow>
                       if line \<noteq> []
                       then s\<lparr>out_items := out_items s @ [line],
                              workers := (workers s)[i := Marking]\<rparr>
                       else s\<lparr>workers := (workers s)[i := Marking]\<rparr>))
         | Marking \<Rightarrow>
             if unfinished_tasks s = 0
             then s\<lparr>workers :=
                      (workers s)[i := Crashed (ValueError ''task_done() called too many times'')]\<rparr>
             else s\<lparr>unfinished_tasks := unfinished_tasks s - 1,
                    workers := (workers s)[i := Idle]\<rparr>
         | Exited \<Rightarrow> s
         | Crashed e \<Rightarrow> s)
      else s)"

datatype actor = MainThread | WorkerThread nat

definition active :: "wstate \<Rightarrow> bool" where
  "active w = (case w of Idle \<Rightarrow> True | Holding r \<Rightarrow> True | Marking \<Rightarrow> True
                 | Exited \<Rightarrow> False | Crashed e \<Rightarrow> False)"

definition runnable :: "pool \<Rightarrow> actor list" where
  "runnable s =
     (if main_enabled s then [MainThread] else [])
     @ map WorkerThread (filter (\<lambda>i. active (workers s ! i)) [0..<length (workers s)])"

definition step :: "(BLSRecord \<Rightarrow> pyerr + string option) \<Rightarrow> actor \<Rightarrow> pool \<Rightarrow> pool" where
  "step ev a s = (case a of MainThread \<Rightarrow> main_step s | WorkerThread i \<Rightarrow> worker_step ev i s)"

definition has_returned :: "pool \<Rightarrow> bool" where
  "has_returned s = (case main_pc s of Returned found \<Rightarrow> True | _ \<Rightarrow> False)"

text \<open>What is left to do, as a number that every step of every thread makes smaller.\<close>

definition wm :: "wstate \<Rightarrow> nat" where
  "wm w = (case w of Idle \<Rightarrow> 1 | Holding r \<Rightarrow> 4 | Marking \<Rightarrow> 2 | Exited \<Rightarrow> 0 | Crashed e \<Rightarrow> 0)"

fun main_m :: "mstate \<Rightarrow> nat \<Rightarrow> nat" where
  "main_m Starting k = 2 * k + 2"
| "main_m (Draining found) k = 1"
| "main_m (Returned found) k = 0"

definition pool_measure :: "pool \<Rightarrow> nat" where
  "pool_measure s =
     main_m (main_pc s) (range_len s - length (workers s))
     + sum_list (map wm (workers s)) + 5 * length (q_items s) + length (out_items s)"

subsection \<open>Every step makes the measure smaller\<close>

lemma nth_le_sum_map: "i < length ws \<Longrightarrow> (f (ws ! i) :: nat) \<le> sum_list (map f ws)"
  by (induction ws arbitrary: i) (auto simp: nth_Cons split: nat.splits intro: trans_le_add2)

lemma sum_map_update:
  "i < length ws \<Longrightarrow>
   sum_list (map f (ws[i := w])) = sum_list (map f ws) - f (ws ! i) + (f w :: nat)"
proof (induction ws arbitrary: i)
  case Nil
  then show ?case by simp
next
  case (Cons a ws)
  show ?case
  proof (cases i)
    case 0
    then show ?thesis by simp
  next
    case (Suc j)
    with Cons.prems have j: "j < length ws" by simp
    from nth_le_sum_map [OF j, of f] Cons.IH [OF j] Suc show ?thesis by simp
  qed
qed

lemma worker_step_decreases:
  assumes "i < length (workers s)" "active (workers s ! i)"
  shows "pool_measure (worker_step ev i s) < pool_measure s"
proof -
  note le = nth_le_sum_map [OF assms(1), of wm]
  note upd = sum_map_update [OF assms(1), of wm]
  show ?thesis
  proof (cases "workers s ! i")
    case Idle
    then show ?thesis using assms le
      by (auto simp: upd worker_step_def pool_measure_def wm_def split: list.splits)
  next
    case (Holding r)
    then show ?thesis using assms le
      by (auto simp: upd worker_step_def pool_measure_def wm_def split: sum.splits option.splits)
  next
    case Marking
    then show ?thesis using assms le
      by (auto simp: upd worker_step_def pool_measure_def wm_def)
  next
    case Exited
    then show ?thesis using assms by (simp add: active_def)
  next
    case (Crashed e)
    then show ?thesis using assms by (simp add: active_def)
  qed
qed

lemma main_step_decreases:
  assumes "main_enabled s"
  shows "pool_measure (main_step s) < pool_measure s"
  using assms
  by (auto simp: main_enabled_def main_step_def pool_measure_def wm_def split: mstate.splits list.splits)

lemma runnable_cases:
  assumes "a \<in> set (runnable s)"
  shows "(a = MainThread \<and> main_enabled s)
       \<or> (\<exists>i. a = WorkerThread i \<and> i < length (workers s) \<and> active (workers s ! i))"
  using assms by (auto simp: runnable_def split: if_splits)

lemma step_decreases:
  assumes "a \<in> set (runnable s)"
  shows "pool_measure (step ev a s) < pool_measure s"
  using runnable_cases [OF assms]
  by (auto simp: step_def main_step_decreases worker_step_decreases)

lemma runnable_pick: "runnable s \<noteq> [] \<Longrightarrow> runnable s ! (n mod length (runnable s)) \<in> set (runnable s)"
  by simp

function run_pool ::
  "(BLSRecord \<Rightarrow> pyerr + string option) \<Rightarrow> (nat \<Rightarrow> nat) \<Rightarrow> nat \<Rightarrow> pool \<Rightarrow> pool" where
  "run_pool ev sched k s =
     (if has_returned s \<or> runnable s = [] then s
      else run_pool ev sched (Suc k)
             (step ev (runnable s ! (sched k mod length (runnable s))) s))"
  by pat_completeness auto
termination
proof (relation "measure (\<lambda>(ev, sched, k, s). pool_measure s)")
  show "wf (measure (\<lambda>(ev, sched, k, s). pool_measure s))"
    by simp
next
  fix ev :: "BLSRecord \<Rightarrow> pyerr + string option" and sched :: "nat \<Rightarrow> nat" and k s
  assume "\<not> (has_returned s \<or> runnable s = [])"
  then have "runnable s ! (sched k mod length (runnable s)) \<in> set (runnable s)"
    by (simp add: runnable_pick)
  then show "((ev, sched, Suc k, step ev (runnable s ! (sched k mod length (runnable s))) s),
              (ev, sched, k, s)) \<in> measure (\<lambda>(ev, sched, k, s). pool_measure s)"
    by (simp add: step_decreases)
qed

declare run_pool.simps [simp del]

lemma run_pool_stop: "has_returned s \<or> runnable s = [] \<Longrightarrow> run_pool ev sched k s = s"
  by (subst run_pool.simps) simp

lemma run_pool_go:
  "\<not> (has_returned s \<or> runnable s = []) \<Longrightarrow>
   run_pool ev sched k s =
   run_pool ev sched (Suc k) (step ev (runnable s ! (sched k mod length (runnable s))) s)"
  by (subst run_pool.simps) simp

lemma run_pool_final:
  "has_returned (run_pool ev sched k s) \<or> runnable (run_pool ev sched k s) = []"
proof (induction ev sched k s rule: run_pool.induct)
  case (1 ev sched k s)
  show ?case
  proof (cases "has_returned s \<or> runnable s = []")
    case True
    have "run_pool ev sched k s = s" by (rule run_pool_stop [OF True])
    with True show ?thesis by (simp only:)
  next
    case False
    have "run_pool ev sched k s =
      run_pool ev sched (Suc k) (step ev (runnable s ! (sched k mod length (runnable s))) s)"
      by (rule run_pool_go [OF False])
    with "1.IH" [OF False] show ?thesis by (simp only:)
  qed
qed

lemma run_pool_invariant:
  assumes init: "P s"
    and pres: "\<And>t a. P t \<Longrightarrow> \<not> has_returned t \<Longrightarrow> a \<in> set (runnable t) \<Longrightarrow> P (step ev a t)"
  shows "P (run_pool ev sched k s)"
  using init pres
proof (induction ev sched k s rule: run_pool.induct)
  case (1 ev sched k s)
  show ?case
  proof (cases "has_returned s \<or> runnable s = []")
    case True
    have "run_pool ev sched k s = s" by (rule run_pool_stop [OF True])
    with "1.prems" show ?thesis by (simp only:)
  next
    case False
    then have mem: "runnable s ! (sched k mod length (runnable s)) \<in> set (runnable s)"
      by (simp add: runnable_pick)
    from False have nr: "\<not> has_returned s" by simp
    have "P (step ev (runnable s ! (sched k mod length (runnable s))) s)"
      by (rule "1.prems"(2) [OF "1.prems"(1) nr mem])
    then have "P (run_pool ev sched (Suc k)
                   (step ev (runnable s ! (sched k mod length (runnable s))) s))"
      by (rule "1.IH" [OF False _ "1.prems"(2)])
    moreover have "run_pool ev sched k s =
      run_pool ev sched (Suc k) (step ev (runnable s ! (sched k mod length (runnable s))) s)"
      by (rule run_pool_go [OF False])
    ultimately show ?thesis by (simp only:)
  qed
qed


text \<open>
  \<open>multi_thread_check(records, threads)\<close>, with the evaluation \<open>ev\<close> the workers call, the
  schedule and the content \<open>vf\<close> of the hits file made explicit. The main thread returns
  \<open>found\<close>; when no thread can move and the main thread is still inside \<open>q.join()\<close>, the
  call never returns, which is the value \<open>Inl JoinBlocksForever\<close>.
\<close>

datatype hang = JoinBlocksForever

definition final_pool ::
  "(BLSRecord \<Rightarrow> pyerr + string option) \<Rightarrow> (nat \<Rightarrow> nat) \<Rightarrow> BLSRecord list \<Rightarrow> int \<Rightarrow> string \<Rightarrow> pool" where
  "final_pool ev sched records threads vf = run_pool ev sched 0 (init_pool records threads vf)"

definition multi_thread_check_with ::
  "(BLSRecord \<Rightarrow> pyerr + string option) \<Rightarrow> (nat \<Rightarrow> nat) \<Rightarrow> BLSRecord list \<Rightarrow> int \<Rightarrow> string
   \<Rightarrow> hang + (string list \<times> string)" where
  "multi_thread_check_with ev sched records threads vf =
     (let s = final_pool ev sched records threads vf
      in case main_pc s of
           Returned found \<Rightarrow> Inr (found, hits_file s)
         | Starting \<Rightarrow> Inl JoinBlocksForever
         | Draining found \<Rightarrow> Inl JoinBlocksForever)"

text \<open>The call \<open>simulate_check(record)\<close> as \<open>worker_check\<close> makes it, with the default delay.\<close>

definition simulate_check_default :: "BLSRecord \<Rightarrow> pyerr + string option" where
  "simulate_check_default r = simulate_check r default_delay"

definition multi_thread_check ::
  "(nat \<Rightarrow> nat) \<Rightarrow> BLSRecord list \<Rightarrow> int \<Rightarrow> string \<Rightarrow> hang + (string list \<times> string)" where
  "multi_thread_check sched records threads vf =
     multi_thread_check_with simulate_check_default sched records threads vf"


text \<open>The number of worker threads the call has started by the time it returns or blocks
  for good.\<close>

definition workers_started ::
  "(BLSRecord \<Rightarrow> pyerr + string option) \<Rightarrow> (nat \<Rightarrow> nat) \<Rightarrow> BLSRecord list \<Rightarrow> int \<Rightarrow> string \<Rightarrow> nat" where
  "workers_started ev sched records threads vf =
     length (workers (final_pool ev sched records threads vf))"

section \<open>The command handlers\<close>

text \<open>
  \<open>args.input or OUTPUT_FILE\<close>; the files are a map from a path to the lines of the file
  there. Colour codes and the progress bar are left out of what is printed: the package
  \<open>colorama\<close> is taken to be installed. (Without it the fallback class of the program has
  no attribute \<open>RESET_ALL\<close>, and the first coloured \<open>print\<close> of a handler raises
  \<open>AttributeError\<close>.)
\<close>

type_synonym files = "string \<Rightarrow> string list option"

definition chosen_path :: "string option \<Rightarrow> string" where
  "chosen_path inp = (case inp of None \<Rightarrow> OUTPUT_FILE | Some p \<Rightarrow> if p = [] then OUTPUT_FILE else p)"

definition not_found_message :: string where
  "not_found_message = ''Input file not found. Generate records first or provide a file path.''"

text \<open>
  \<open>handle_simulate_check(args)\<close>: the exception that leaves the handler, or the lines
  printed together with the hits file afterwards, the latter replaced by \<open>Inl\<close> when the
  pool never returns.
\<close>

definition handle_simulate_check ::
  "(nat \<Rightarrow> int) \<Rightarrow> (nat \<Rightarrow> nat) \<Rightarrow> files \<Rightarrow> string option \<Rightarrow> int \<Rightarrow> string
   \<Rightarrow> pyerr + (string list \<times> (hang + string))" where
  "handle_simulate_check now sched fs inp threads vf =
     (case fs (chosen_path inp) of
        None \<Rightarrow> Inr ([not_found_message], Inr vf)
      | Some f \<Rightarrow>
          (case load_records now 0 (read_lines f) of
             Inl e \<Rightarrow> Inl e
           | Inr records \<Rightarrow>
               (let loaded = ''Loaded '' @ str_int (int (length records)) @ '' records from ''
                               @ chosen_path inp
                in case multi_thread_check sched records threads vf of
                     Inl h \<Rightarrow> Inr ([loaded], Inl h)
                   | Inr (found, vf') \<Rightarrow>
                       Inr ([loaded,
                             ''Simulation complete. '' @ str_int (int (length found))
                               @ '' valid(s) found. See '' @ VALID_OUTPUT_FILE],
                            Inr vf'))))"

text \<open>\<open>random.random()\<close>: a multiple of \<open>2 ^ -53\<close> below 1. The literal \<open>0.78\<close> is the
  double \<open>7025615418697974 / 2 ^ 53\<close>.\<close>

definition random_random :: "rng \<Rightarrow> real" where
  "random_random g = real (g 0 mod 2 ^ 53) / 2 ^ 53"

definition float_0_78 :: real where
  "float_0_78 = 7025615418697974 / 2 ^ 53"

definition dict_get :: "pydict \<Rightarrow> string \<Rightarrow> string" where
  "dict_get d k = (case map_of d k of None \<Rightarrow> ''None'' | Some v \<Rightarrow> v)"

text \<open>\<open>sep.join(xs)\<close>, and the text of a dictionary of strings, for the one message that
  prints a response.\<close>

fun join :: "string \<Rightarrow> string list \<Rightarrow> string" where
  "join sep [] = []"
| "join sep [x] = x"
| "join sep (x # y # ys) = x @ sep @ join sep (y # ys)"

definition dict_repr :: "pydict \<Rightarrow> string" where
  "dict_repr d = ''{'' @ join '', '' (map (\<lambda>(k, v). py_repr k @ '': '' @ py_repr v) d) @ ''}''"

definition err_message :: "pyerr \<Rightarrow> string" where
  "err_message e =
     (case e of ValueError m \<Rightarrow> m | IndexError m \<Rightarrow> m | RuntimeError m \<Rightarrow> m
        | NotImplementedError m \<Rightarrow> m | OverflowError m \<Rightarrow> m | FileNotFoundError \<Rightarrow> [])"

text \<open>\<open>real_book_request_simulation_placeholder(record, user_data)\<close>.\<close>

definition real_book_request_simulation_placeholder ::
  "BLSRecord \<Rightarrow> pydict \<Rightarrow> rng \<Rightarrow> pydict \<times> rng" where
  "real_book_request_simulation_placeholder rec user_data g =
     (let ok = (random_random g > float_0_78 \<or> balance rec \<ge> 120);
          g1 = shift 1 g
      in if ok
         then (case random_string 8 g1 of (suffix, g2) \<Rightarrow>
                 ([(''status'', ''success''),
                   (''message'', ''Simulated booking confirmed''),
                   (''appointment_id'', ''SIM-'' @ suffix),
                   (''record'', BLSRecord_str rec)], g2))
         else ([(''status'', ''fail''),
                (''message'', ''Simulated no-availability or invalid credentials''),
                (''record'', BLSRecord_str rec)], g1))"

text \<open>\<open>random.sample(population, k)\<close> for \<open>0 \<le> k \<le> len(population)\<close>: \<open>k\<close> picks, each
  from what the earlier ones left.\<close>

fun random_sample :: "rng \<Rightarrow> 'a list \<Rightarrow> nat \<Rightarrow> 'a list \<times> rng" where
  "random_sample g xs 0 = ([], g)"
| "random_sample g xs (Suc k) =
     (if xs = [] then ([], g)
      else (let j = g 0 mod length xs
            in case random_sample (shift 1 g) (take j xs @ drop (Suc j) xs) k of
                 (ys, g') \<Rightarrow> (xs ! j # ys, g')))"

text \<open>
  The state of \<open>handle_attempt_book\<close>: what has been printed, the hits file, and the
  exception, if any, that ended the handler. The program keeps no list of the calls it
  makes; the model does, so that which of the two booking functions ran, on which record
  and in which order, is part of the result: \<open>calls\<close> gets an entry where the handler calls
  \<open>real_book_request\<close> and where it calls \<open>real_book_request_simulation_placeholder\<close>.
\<close>

datatype booking_call =
    Real_book_request BLSRecord
  | Simulation_placeholder BLSRecord

record book_result =
  printed :: "string list"
  hits :: string
  raised :: "pyerr option"
  calls :: "booking_call list"

text \<open>The loop \<open>for ln in sample\<close>; \<open>enabled\<close> is \<open>REAL_INTEGRATION_ENABLED\<close>.\<close>

fun attempt_loop ::
  "bool \<Rightarrow> bool \<Rightarrow> (nat \<Rightarrow> int) \<Rightarrow> nat \<Rightarrow> rng \<Rightarrow> string list \<Rightarrow> string list \<Rightarrow> string
   \<Rightarrow> booking_call list \<Rightarrow> book_result" where
  "attempt_loop enabled use_real now k g [] out vf cs =
     \<lparr>printed = out, hits = vf, raised = None, calls = cs\<rparr>"
| "attempt_loop enabled use_real now k g (line # rest) out vf cs =
     (case record_of_parts (now k) (split_on CHR ''|'' line) of
        Inl e \<Rightarrow> \<lparr>printed = out, hits = vf, raised = Some e, calls = cs\<rparr>
      | Inr rec \<Rightarrow>
          (let out1 = out @ [newline @ ''=== Attempting booking for '' @ code rec
                               @ '' (simulated) ==='']
           in if enabled \<and> use_real
              then (case real_book_request enabled rec [] of
                      Inr resp \<Rightarrow>
                        attempt_loop enabled use_real now (Suc k) g rest
                          (out1 @ [''Real integration response: '' @ dict_repr resp]) vf
                          (cs @ [Real_book_request rec])
                    | Inl e \<Rightarrow>
                        attempt_loop enabled use_real now (Suc k) g rest
                          (out1 @ [''Real integration failed or disabled: '' @ err_message e]) vf
                          (cs @ [Real_book_request rec]))
              else (case real_book_request_simulation_placeholder rec [] g of
                      (resp, g') \<Rightarrow>
                        if map_of resp ''status'' = Some ''success''
                        then attempt_loop enabled use_real now (Suc k) g' rest
                               (out1 @ [''Simulated booking success: appointment id ''
                                          @ dict_get resp ''appointment_id''])
                               (vf @ ''BOOKED_SIM|'' @ dict_get resp ''appointment_id'' @ ''|''
                                   @ BLSRecord_str rec @ newline)
                               (cs @ [Simulation_placeholder rec])
                        else attempt_loop enabled use_real now (Suc k) g' rest
                               (out1 @ [''Simulated booking failed: ''
                                          @ dict_get resp ''message'']) vf
                               (cs @ [Simulation_placeholder rec]))))"

text \<open>\<open>handle_attempt_book(args)\<close>; \<open>random.sample\<close> raises on a negative size.\<close>

definition handle_attempt_book ::
  "bool \<Rightarrow> (nat \<Rightarrow> int) \<Rightarrow> rng \<Rightarrow> files \<Rightarrow> string option \<Rightarrow> int \<Rightarrow> bool \<Rightarrow> string
   \<Rightarrow> book_result" where
  "handle_attempt_book enabled now g fs inp attempts use_real vf =
     (case fs (chosen_path inp) of
        None \<Rightarrow> \<lparr>printed = [not_found_message], hits = vf, raised = None, calls = []\<rparr>
      | Some f \<Rightarrow>
          (let lines = read_lines f;
               n = min attempts (int (length lines))
           in if n < 0
              then \<lparr>printed = [], hits = vf,
                    raised = Some (ValueError ''Sample larger than population or is negative''),
                    calls = []\<rparr>
              else (case random_sample g lines (nat n) of
                      (sample, g') \<Rightarrow> attempt_loop enabled use_real now 0 g' sample [] vf [])))"

text \<open>
  What a run of simulated bookings is, said apart from the handler: the attempts are the
  lines of the sample up to the first that is not a record, each with the response the
  simulation placeholder gives for it; an attempt prints its heading and its outcome, and
  an accepted one is a \<open>BOOKED_SIM\<close> line with its appointment id.
\<close>

fun simulated_attempts ::
  "(nat \<Rightarrow> int) \<Rightarrow> nat \<Rightarrow> rng \<Rightarrow> string list \<Rightarrow> (BLSRecord \<times> pydict) list \<times> pyerr option" where
  "simulated_attempts now k g [] = ([], None)"
| "simulated_attempts now k g (line # rest) =
     (case record_of_parts (now k) (split_on CHR ''|'' line) of
        Inl e \<Rightarrow> ([], Some e)
      | Inr rec \<Rightarrow>
          (case real_book_request_simulation_placeholder rec [] g of
             (resp, g') \<Rightarrow>
               (case simulated_attempts now (Suc k) g' rest of
                  (rs, err) \<Rightarrow> ((rec, resp) # rs, err))))"

definition accepted_booking :: "BLSRecord \<times> pydict \<Rightarrow> bool" where
  "accepted_booking a = (map_of (snd a) ''status'' = Some ''success'')"

definition attempt_report :: "BLSRecord \<times> pydict \<Rightarrow> string list" where
  "attempt_report a =
     [newline @ ''=== Attempting booking for '' @ code (fst a) @ '' (simulated) ==='',
      if accepted_booking a
      then ''Simulated booking success: appointment id '' @ dict_get (snd a) ''appointment_id''
      else ''Simulated booking failed: '' @ dict_get (snd a) ''message'']"

definition booked_line :: "BLSRecord \<times> pydict \<Rightarrow> string" where
  "booked_line a =
     (if accepted_booking a
      then ''BOOKED_SIM|'' @ dict_get (snd a) ''appointment_id'' @ ''|''
             @ BLSRecord_str (fst a) @ newline
      else [])"

definition starts_with :: "string \<Rightarrow> string \<Rightarrow> bool" where
  "starts_with p s = (take (length p) s = p)"

text \<open>Test inputs: a file system with nothing but the generated list, and a clock that
  stands still.\<close>

definition epoch :: "nat \<Rightarrow> int" where
  "epoch k = 0"

definition one_file :: "string list \<Rightarrow> files" where
  "one_file f = (\<lambda>p. if p = OUTPUT_FILE then Some f else None)"


section \<open>Invariants of the worker pool\<close>

subsection \<open>What holds in every state of a run\<close>

text \<open>
  Counts over the workers: \<open>owes\<close> marks a worker that has taken a record and not called
  \<open>task_done\<close> for it (and never will, once it has crashed), \<open>holds\<close> one that has a record
  still to evaluate, \<open>exd\<close> one that has returned, and \<open>lost ev\<close> one whose record is never
  marked done because its evaluation raises or raised.
\<close>

fun owes :: "wstate \<Rightarrow> nat" where
  "owes (Holding r) = 1"
| "owes Marking = 1"
| "owes (Crashed e) = 1"
| "owes Idle = 0"
| "owes Exited = 0"

fun holds :: "wstate \<Rightarrow> nat" where
  "holds (Holding r) = 1"
| "holds Marking = 0"
| "holds (Crashed e) = 0"
| "holds Idle = 0"
| "holds Exited = 0"

fun exd :: "wstate \<Rightarrow> nat" where
  "exd Exited = 1"
| "exd (Holding r) = 0"
| "exd Marking = 0"
| "exd (Crashed e) = 0"
| "exd Idle = 0"

definition faults :: "(BLSRecord \<Rightarrow> pyerr + string option) \<Rightarrow> BLSRecord \<Rightarrow> bool" where
  "faults ev r = (case ev r of Inl e \<Rightarrow> True | Inr v \<Rightarrow> False)"

fun lost :: "(BLSRecord \<Rightarrow> pyerr + string option) \<Rightarrow> wstate \<Rightarrow> nat" where
  "lost ev (Holding r) = (if faults ev r then 1 else 0)"
| "lost ev (Crashed e) = 1"
| "lost ev Marking = 0"
| "lost ev Idle = 0"
| "lost ev Exited = 0"

fun found_len :: "mstate \<Rightarrow> nat" where
  "found_len Starting = 0"
| "found_len (Draining found) = length found"
| "found_len (Returned found) = length found"

fun hits_ok :: "string \<Rightarrow> mstate \<Rightarrow> string \<Rightarrow> bool" where
  "hits_ok vf (Returned found) h =
     (h = (if found \<noteq> [] then vf @ concat (map (\<lambda>line. line @ newline) found) else vf))"
| "hits_ok vf Starting h = (h = vf)"
| "hits_ok vf (Draining found) h = (h = vf)"

definition pool_inv ::
  "(BLSRecord \<Rightarrow> pyerr + string option) \<Rightarrow> BLSRecord list \<Rightarrow> int \<Rightarrow> string \<Rightarrow> pool \<Rightarrow> bool" where
  "pool_inv ev records threads vf s =
     (range_len s = nat (min threads (int (length records)))
      \<and> length (workers s) \<le> range_len s
      \<and> unfinished_tasks s = length (q_items s) + sum_list (map owes (workers s))
      \<and> found_len (main_pc s) + length (out_items s) + length (q_items s)
          + sum_list (map holds (workers s)) \<le> length records
      \<and> (0 < sum_list (map exd (workers s)) \<longrightarrow> q_items s = [])
      \<and> (main_pc s \<noteq> Starting \<longrightarrow>
            length (workers s) = range_len s \<and> unfinished_tasks s = 0)
      \<and> (workers s = [] \<longrightarrow> q_items s = records)
      \<and> length (filter (faults ev) records)
          = length (filter (faults ev) (q_items s)) + sum_list (map (lost ev) (workers s))
      \<and> hits_ok vf (main_pc s) (hits_file s))"

lemma pool_inv_init: "pool_inv ev records threads vf (init_pool records threads vf)"
  by (simp add: pool_inv_def init_pool_def)

lemma pool_inv_main_step:
  assumes "pool_inv ev records threads vf s"
  shows "pool_inv ev records threads vf (main_step s)"
  using assms
  by (cases "main_pc s")
     (auto simp: pool_inv_def main_step_def split: list.splits)

lemma pool_inv_worker_step:
  assumes inv: "pool_inv ev records threads vf s"
  shows "pool_inv ev records threads vf (worker_step ev i s)"
proof (cases "i < length (workers s)")
  case False
  then show ?thesis using inv by (simp add: worker_step_def)
next
  case True
  note upd = sum_map_update [OF True]
  note le = nth_le_sum_map [OF True, of owes] nth_le_sum_map [OF True, of holds]
            nth_le_sum_map [OF True, of exd] nth_le_sum_map [OF True, of "lost ev"]
  from True have ne: "workers s \<noteq> []" by auto
  show ?thesis
  proof (cases "workers s ! i")
    case Idle
    then show ?thesis using inv True le ne
      by (auto simp: pool_inv_def worker_step_def upd simp del: sum_list_eq_0_iff split: list.splits)
  next
    case (Holding r)
    then show ?thesis using inv True le ne
      by (auto simp: pool_inv_def worker_step_def upd faults_def simp del: sum_list_eq_0_iff split: sum.splits option.splits)
  next
    case Marking
    then show ?thesis using inv True le ne
      by (auto simp: pool_inv_def worker_step_def upd simp del: sum_list_eq_0_iff)
  next
    case Exited
    then show ?thesis using inv True by (simp add: worker_step_def)
  next
    case (Crashed e)
    then show ?thesis using inv True by (simp add: worker_step_def)
  qed
qed


section \<open>Properties of simulate\_check\<close>

lemma score_bounds: "0 \<le> score ident \<and> score ident < 1"
proof -
  have "0 \<le> sum_list (map ord ident) mod 100" and "sum_list (map ord ident) mod 100 < 100"
    by simp_all
  then show ?thesis
    unfolding score_def by simp
qed

lemma sleep_argument_accepted:
  assumes "0 \<le> delay" and "2 * delay \<le> sleep_max"
  shows "time_sleep (delay * (0.5 + score ident)) = Inr ()"
proof -
  have lo: "0 \<le> 0.5 + score ident" and hi: "0.5 + score ident \<le> 2"
    using score_bounds [of ident] by simp_all
  from assms(1) lo have "0 \<le> delay * (0.5 + score ident)"
    by (rule mult_nonneg_nonneg)
  moreover from assms(1) hi have "delay * (0.5 + score ident) \<le> delay * 2"
    by (rule mult_left_mono [rotated])
  with assms(2) have "delay * (0.5 + score ident) \<le> sleep_max" by simp
  ultimately show ?thesis by (simp add: time_sleep_def)
qed

lemma default_delay_accepted: "0 \<le> default_delay" "2 * default_delay \<le> sleep_max"
  by (simp_all add: default_delay_def sleep_max_def)

lemma simulate_check_ok:
  assumes "0 \<le> delay" and "2 * delay \<le> sleep_max"
  shows "simulate_check rec delay =
    Inr (if score (code rec) > 0.85 \<or> 120 \<le> balance rec
         then Some (''HIT: '' @ code rec @ ''|'' @ expiry rec @ ''|'' @ ref rec
                     @ ''|$'' @ str_int (balance rec))
         else None)"
  using sleep_argument_accepted [OF assms, of "code rec"]
  by (simp add: simulate_check_def score_def Let_def)

lemma score_threshold: "score ident > 0.85 \<longleftrightarrow> 86 \<le> sum_list (map ord ident) mod 100"
  unfolding score_def by (simp add: field_simps) linarith

section \<open>The state in which a run ends\<close>

lemma pool_invD:
  assumes "pool_inv ev records threads vf s"
  shows "range_len s = nat (min threads (int (length records)))"
    and "length (workers s) \<le> range_len s"
    and "unfinished_tasks s = length (q_items s) + sum_list (map owes (workers s))"
    and "found_len (main_pc s) + length (out_items s) + length (q_items s)
          + sum_list (map holds (workers s)) \<le> length records"
    and "0 < sum_list (map exd (workers s)) \<longrightarrow> q_items s = []"
    and "main_pc s \<noteq> Starting \<longrightarrow>
            length (workers s) = range_len s \<and> unfinished_tasks s = 0"
    and "workers s = [] \<longrightarrow> q_items s = records"
    and "length (filter (faults ev) records)
          = length (filter (faults ev) (q_items s)) + sum_list (map (lost ev) (workers s))"
    and "hits_ok vf (main_pc s) (hits_file s)"
  using assms unfolding pool_inv_def by blast+

lemma pool_inv_step:
  "pool_inv ev records threads vf s \<Longrightarrow> pool_inv ev records threads vf (step ev a s)"
  by (cases a) (simp_all add: step_def pool_inv_main_step pool_inv_worker_step)

lemma pool_inv_final:
  "pool_inv ev records threads vf (final_pool ev sched records threads vf)"
  unfolding final_pool_def
  by (rule run_pool_invariant [where P = "pool_inv ev records threads vf"])
     (simp_all add: pool_inv_init pool_inv_step)

lemma final_pool_stopped:
  "has_returned (final_pool ev sched records threads vf)
   \<or> runnable (final_pool ev sched records threads vf) = []"
  unfolding final_pool_def by (rule run_pool_final)

lemma runnable_empty:
  assumes "runnable s = []"
  shows "\<not> main_enabled s" and "\<forall>w \<in> set (workers s). \<not> active w"
proof -
  from assms show "\<not> main_enabled s"
    by (auto simp: runnable_def split: if_splits)
  from assms have "\<forall>i < length (workers s). \<not> active (workers s ! i)"
    by (auto simp: runnable_def filter_empty_conv split: if_splits)
  then show "\<forall>w \<in> set (workers s). \<not> active w"
    by (auto simp: in_set_conv_nth)
qed

lemma inactive_sums:
  assumes "\<forall>w \<in> set ws. \<not> active w" and "sum_list (map (lost ev) ws) = 0"
  shows "sum_list (map owes ws) = 0 \<and> (ws \<noteq> [] \<longrightarrow> 0 < sum_list (map exd ws))"
  using assms
proof (induction ws)
  case Nil
  then show ?case by simp
next
  case (Cons w ws)
  then show ?case by (cases w) (auto simp: active_def)
qed

lemma lost_le_owes: "sum_list (map (lost ev) ws) \<le> sum_list (map owes ws)"
proof (induction ws)
  case Nil
  show ?case by simp
next
  case (Cons w ws)
  then show ?case by (cases w) auto
qed

lemma no_faults_filter: "length (filter (faults ev) rs) = 0 \<longleftrightarrow> (\<forall>r \<in> set rs. \<not> faults ev r)"
  by (simp add: filter_empty_conv)

lemma returned_imp:
  assumes inv: "pool_inv ev records threads vf s" and ret: "has_returned s"
  shows "(1 \<le> threads \<or> records = []) \<and> (\<forall>r \<in> set records. \<not> faults ev r)"
proof -
  note D = pool_invD [OF inv]
  from ret have pc: "main_pc s \<noteq> Starting"
    by (auto simp: has_returned_def)
  with D(6) have u: "unfinished_tasks s = 0" and len: "length (workers s) = range_len s"
    by blast+
  from D(3) u have "length (q_items s) + sum_list (map owes (workers s)) = 0"
    by (simp only:)
  then have ql: "length (q_items s) = 0" and o: "sum_list (map owes (workers s)) = 0"
    by linarith+
  from ql have q: "q_items s = []" by simp
  from o lost_le_owes [of ev "workers s"] have l: "sum_list (map (lost ev) (workers s)) = 0"
    by linarith
  from D(8) have "length (filter (faults ev) records) = 0"
    unfolding q l by simp
  then have nf: "\<forall>r \<in> set records. \<not> faults ev r"
    by (simp only: no_faults_filter)
  have "1 \<le> threads \<or> records = []"
  proof (rule ccontr)
    assume "\<not> (1 \<le> threads \<or> records = [])"
    then have t: "threads < 1" and r: "records \<noteq> []" by simp_all
    from D(1) t have "range_len s = 0" by simp
    with len have "workers s = []" by simp
    with D(7) have "q_items s = records" by blast
    with q r show False by simp
  qed
  with nf show ?thesis by blast
qed

lemma blocked_imp:
  assumes inv: "pool_inv ev records threads vf s"
    and nret: "\<not> has_returned s" and stuck: "runnable s = []"
  shows "\<not> ((1 \<le> threads \<or> records = []) \<and> (\<forall>r \<in> set records. \<not> faults ev r))"
proof
  assume h: "(1 \<le> threads \<or> records = []) \<and> (\<forall>r \<in> set records. \<not> faults ev r)"
  note D = pool_invD [OF inv]
  from runnable_empty [OF stuck] have me: "\<not> main_enabled s"
    and ina: "\<forall>w \<in> set (workers s). \<not> active w" by blast+
  from nret me have pc: "main_pc s = Starting"
    by (cases "main_pc s") (simp_all add: has_returned_def main_enabled_def)
  with me have len: "\<not> length (workers s) < range_len s" and u: "unfinished_tasks s \<noteq> 0"
    by (simp_all add: main_enabled_def)
  from h have nf: "\<forall>r \<in> set records. \<not> faults ev r" by blast
  then have "length (filter (faults ev) records) = 0"
    by (simp only: no_faults_filter)
  with D(8) have l: "sum_list (map (lost ev) (workers s)) = 0"
    by linarith
  from inactive_sums [OF ina l] have o: "sum_list (map owes (workers s)) = 0"
    and e: "workers s \<noteq> [] \<longrightarrow> 0 < sum_list (map exd (workers s))" by blast+
  have q: "q_items s = []"
  proof (cases "workers s = []")
    case False
    with e have "0 < sum_list (map exd (workers s))" by blast
    with D(5) show ?thesis by blast
  next
    case True
    with len have "range_len s = 0" by simp
    with D(1) have "min threads (int (length records)) \<le> 0" by simp
    then have "threads < 1 \<or> records = []" by (cases records) (auto simp: min_def split: if_splits)
    with h have "records = []" by auto
    moreover from D(7) True have "q_items s = records" by blast
    ultimately show ?thesis by simp
  qed
  from D(3) have "unfinished_tasks s = 0" unfolding q o by simp
  with u show False by simp
qed

lemma final_returns_iff:
  "has_returned (final_pool ev sched records threads vf)
   \<longleftrightarrow> (1 \<le> threads \<or> records = []) \<and> (\<forall>r \<in> set records. \<not> faults ev r)"
  using returned_imp [OF pool_inv_final, of ev sched records threads vf]
        blocked_imp [OF pool_inv_final, of ev sched records threads vf]
        final_pool_stopped [of ev sched records threads vf]
  by blast

lemma final_workers:
  "length (workers (final_pool ev sched records threads vf))
   = nat (min threads (int (length records)))"
proof -
  let ?s = "final_pool ev sched records threads vf"
  have inv: "pool_inv ev records threads vf ?s" by (rule pool_inv_final)
  note D = pool_invD [OF inv]
  have "length (workers ?s) = range_len ?s"
  proof (cases "main_pc ?s = Starting")
    case False
    with D(6) show ?thesis by blast
  next
    case True
    then have "\<not> has_returned ?s" by (simp add: has_returned_def)
    with final_pool_stopped [of ev sched records threads vf]
    have "runnable ?s = []" by blast
    from runnable_empty(1) [OF this] True have "\<not> length (workers ?s) < range_len ?s"
      by (simp add: main_enabled_def)
    with D(2) show ?thesis by linarith
  qed
  with D(1) show ?thesis by simp
qed


lemma returned_result:
  assumes "has_returned (final_pool ev sched records threads vf)"
  shows "\<exists>found. multi_thread_check_with ev sched records threads vf
            = Inr (found, if found \<noteq> [] then vf @ concat (map (\<lambda>line. line @ newline) found) else vf)
          \<and> length found \<le> length records"
proof -
  let ?s = "final_pool ev sched records threads vf"
  have inv: "pool_inv ev records threads vf ?s" by (rule pool_inv_final)
  from assms obtain found where pc: "main_pc ?s = Returned found"
    by (cases "main_pc ?s") (simp_all add: has_returned_def)
  with inv have "hits_file ?s = (if found \<noteq> [] then vf @ concat (map (\<lambda>line. line @ newline) found) else vf)"
    and "length found \<le> length records"
    by (simp_all add: pool_inv_def)
  with pc show ?thesis
    by (auto simp: multi_thread_check_with_def Let_def)
qed


section \<open>Integers to text and back\<close>

lemma lt10_cases:
  "d < 10 \<Longrightarrow> d = 0 \<or> d = 1 \<or> d = 2 \<or> d = 3 \<or> d = 4 \<or> d = 5 \<or> d = 6 \<or> d = 7 \<or> d = 8 \<or> d = (9::nat)"
  by arith

lemma digit_char_in_digits: "d < 10 \<Longrightarrow> digit_char d \<in> set digits"
  using lt10_cases [of d] by (auto simp: digit_char_def digits_def)

lemma digit_value_digit_char: "d < 10 \<Longrightarrow> digit_value (digit_char d) = d"
  using lt10_cases [of d] by (auto simp: digit_value_def digit_char_def digits_def)

lemma str_nat_digits: "set (str_nat n) \<subseteq> set digits"
proof (induction n rule: str_nat.induct)
  case (1 n)
  show ?case
  proof (cases "n < 10")
    case True
    then show ?thesis by (subst str_nat.simps) (simp add: digit_char_in_digits)
  next
    case False
    with "1.IH" show ?thesis by (subst str_nat.simps) (simp add: digit_char_in_digits)
  qed
qed

lemma str_nat_nonempty: "str_nat n \<noteq> []"
  by (subst str_nat.simps) simp

lemma parse_nat_snoc: "parse_nat (ds @ [c]) = 10 * parse_nat ds + digit_value c"
  by (simp add: parse_nat_def)

lemma parse_nat_str_nat: "parse_nat (str_nat n) = n"
proof (induction n rule: str_nat.induct)
  case (1 n)
  show ?case
  proof (cases "n < 10")
    case True
    then show ?thesis
      by (subst str_nat.simps) (simp add: parse_nat_def digit_value_digit_char)
  next
    case False
    with "1.IH" show ?thesis
      by (subst str_nat.simps) (simp add: parse_nat_snoc digit_value_digit_char)
  qed
qed

lemma digits_not_space: "c \<in> set digits \<Longrightarrow> \<not> is_space c"
  by (auto simp: digits_def is_space_def)

lemma digits_not_int_space: "c \<in> set digits \<Longrightarrow> \<not> is_int_space c"
  by (auto simp: digits_def is_int_space_def)

lemma int_strip_no_space_ends:
  assumes "s \<noteq> []" and "\<not> is_int_space (hd s)" and "\<not> is_int_space (last s)"
  shows "int_strip s = s"
proof -
  from assms(1,3) have "dropWhile is_int_space (rev s) = rev s"
    by (cases s rule: rev_cases) auto
  moreover from assms(1,2) have "dropWhile is_int_space s = s"
    by (cases s) auto
  ultimately show ?thesis by (simp add: int_strip_def)
qed

lemma split_on_none: "sep \<notin> set s \<Longrightarrow> split_on sep s = [s]"
  by (induction s) auto

lemma split_on_append:
  "sep \<notin> set a \<Longrightarrow> split_on sep (a @ sep # rest) = a # split_on sep rest"
  by (induction a) auto

lemma str_int_chars: "set (str_int i) \<subseteq> insert CHR ''-'' (set digits)"
  using str_nat_digits by (auto simp: str_int_def)

lemma str_int_nonempty: "str_int i \<noteq> []"
  by (simp add: str_int_def str_nat_nonempty)

lemma last_str_nat_digit: "last (str_nat n) \<in> set digits"
  using str_nat_digits [of n] last_in_set [OF str_nat_nonempty, of n] by blast

lemma hd_str_nat_digit: "hd (str_nat n) \<in> set digits"
  using str_nat_digits [of n] hd_in_set [OF str_nat_nonempty, of n] by blast

lemma last_str_int_digit: "last (str_int i) \<in> set digits"
  by (simp add: str_int_def str_nat_nonempty last_str_nat_digit)

lemma py_int_str_int:
  assumes "length (str_int i) \<le> max_str_digits"
  shows "py_int (str_int i) = Inr i"
proof -
  have ne: "str_int i \<noteq> []" by (rule str_int_nonempty)
  have hdns: "\<not> is_int_space (hd (str_int i))"
    using hd_str_nat_digit [of "nat i"] hd_str_nat_digit [of "nat (- i)"]
    by (auto simp: str_int_def is_int_space_def dest: digits_not_int_space)
  have "\<not> is_int_space (last (str_int i))"
    using last_str_int_digit by (rule digits_not_int_space)
  with ne hdns have st: "int_strip (str_int i) = str_int i"
    by (rule int_strip_no_space_ends)
  have us: "CHR ''_'' \<notin> set (str_nat n)" for n
    using str_nat_digits [of n] by (auto simp: digits_def)
  have all: "\<forall>c \<in> set (str_nat n). literal_char c" for n
    using str_nat_digits [of n] by (auto simp: literal_char_def is_digit_def)
  have run: "takeWhile literal_char (str_nat n) = str_nat n" for n
    using all [of n] by (simp add: takeWhile_eq_all_conv)
  have rest: "dropWhile literal_char (str_nat n) = []" for n
    using all [of n] by (simp add: dropWhile_eq_Nil_conv)
  from assms have len: "length (str_nat (nat (- i))) \<le> max_str_digits" if "i < 0"
    using that by (simp add: str_int_def)
  from assms have len': "length (str_nat (nat i)) \<le> max_str_digits" if "\<not> i < 0"
    using that by (simp add: str_int_def)
  show ?thesis
  proof (cases "i < 0")
    case True
    with len show ?thesis
      by (simp add: py_int_def st Let_def)
         (simp add: str_int_def run rest all split_on_none [OF us] str_nat_nonempty
            parse_nat_str_nat)
  next
    case False
    have "hd (str_nat (nat i)) \<noteq> CHR ''-''" "hd (str_nat (nat i)) \<noteq> CHR ''+''"
      using hd_str_nat_digit [of "nat i"] by (auto simp: digits_def)
    with False len' show ?thesis
      by (simp add: py_int_def st Let_def)
         (simp add: str_int_def run rest all split_on_none [OF us] str_nat_nonempty
            parse_nat_str_nat)
  qed
qed

lemma str_nat_length:
  assumes "n < 10 ^ k" and "0 < k"
  shows "length (str_nat n) \<le> k"
  using assms
proof (induction n arbitrary: k rule: str_nat.induct)
  case (1 n)
  show ?case
  proof (cases "n < 10")
    case True
    with "1.prems" show ?thesis by (subst str_nat.simps) simp
  next
    case False
    with "1.prems" obtain j where k: "k = Suc j" by (cases k) auto
    from False "1.prems"(1) k have j: "0 < j" by (cases j) auto
    from "1.prems"(1) k have "n div 10 < 10 ^ j"
      by (simp add: less_mult_imp_div_less mult.commute)
    from "1.IH" [OF False this j] False k show ?thesis
      by (subst str_nat.simps) simp
  qed
qed

lemma tier_balance_short:
  assumes "b \<in> set balance_tiers"
  shows "length (str_int b) \<le> max_str_digits"
proof -
  from assms have "0 \<le> b" and "nat b < 10 ^ 3"
    by (auto simp: balance_tiers_def)
  from str_nat_length [OF this(2)] this(1) show ?thesis
    by (simp add: str_int_def max_str_digits_def)
qed


section \<open>The claims about simulate\_check and real\_book\_request\<close>



text \<open>
  Claim C4. Two invocations of \<open>simulate_check\<close> on the same record give the same outcome,
  whatever delays they are given among those \<open>time.sleep\<close> accepts: the outcome is a
  function of the record alone, and neither the wait nor any random source enters it.
\<close>

theorem simulate_check_deterministic:
  assumes "0 \<le> d1" and "2 * d1 \<le> sleep_max" and "0 \<le> d2" and "2 * d2 \<le> sleep_max"
  shows "simulate_check rec d1 = simulate_check rec d2"
  by (simp only: simulate_check_ok [OF assms(1,2)] simulate_check_ok [OF assms(3,4)])

theorem simulate_check_deterministic_witness:
  "(0::real) \<le> default_delay \<and> 2 * default_delay \<le> sleep_max
   \<and> (0::real) \<le> 2 \<and> 2 * 2 \<le> sleep_max
   \<and> simulate_check \<lparr>code = ''9900000000000000'', expiry = ''01/2025'', ref = ''123'',
                      balance = 0, generated_at = 0\<rparr> default_delay
     = simulate_check \<lparr>code = ''9900000000000000'', expiry = ''01/2025'', ref = ''123'',
                      balance = 0, generated_at = 0\<rparr> 2"
proof -
  note d = default_delay_accepted
  have e: "(0::real) \<le> 2" "2 * 2 \<le> sleep_max" by (simp_all add: sleep_max_def)
  from simulate_check_deterministic [OF d e] d e show ?thesis by blast
qed

text \<open>
  Claim C10. Two records with the same identifier and the same balance get the same
  decision from \<open>simulate_check\<close>, whatever their expiry, reference and creation time.
\<close>

theorem decision_depends_on_code_and_balance:
  assumes "code r1 = code r2" and "balance r1 = balance r2"
  shows "accepted r1 \<longleftrightarrow> accepted r2"
proof -
  have "accepted r \<longleftrightarrow> (score (code r) > 0.85 \<or> 120 \<le> balance r)" for r
    unfolding accepted_def simulate_check_ok [OF default_delay_accepted] by simp
  with assms show ?thesis by simp
qed

theorem decision_depends_on_code_and_balance_witness:
  "code \<lparr>code = ''9900000000000000'', expiry = ''01/2025'', ref = ''123'',
         balance = 10, generated_at = 0\<rparr>
   = code \<lparr>code = ''9900000000000000'', expiry = ''12/2030'', ref = ''999'',
           balance = 10, generated_at = 77\<rparr>
   \<and> balance \<lparr>code = ''9900000000000000'', expiry = ''01/2025'', ref = ''123'',
         balance = 10, generated_at = 0\<rparr>
   = balance \<lparr>code = ''9900000000000000'', expiry = ''12/2030'', ref = ''999'',
           balance = 10, generated_at = 77\<rparr>
   \<and> (accepted \<lparr>code = ''9900000000000000'', expiry = ''01/2025'', ref = ''123'',
         balance = 10, generated_at = 0\<rparr>
      \<longleftrightarrow> accepted \<lparr>code = ''9900000000000000'', expiry = ''12/2030'', ref = ''999'',
           balance = 10, generated_at = 77\<rparr>)"
  using decision_depends_on_code_and_balance
    [of "\<lparr>code = ''9900000000000000'', expiry = ''01/2025'', ref = ''123'',
         balance = 10, generated_at = 0\<rparr>"
        "\<lparr>code = ''9900000000000000'', expiry = ''12/2030'', ref = ''999'',
           balance = 10, generated_at = 77\<rparr>"]
  by simp

text \<open>
  Claim C5. \<open>real_book_request\<close> never returns a response: with the flag off it raises
  \<open>RuntimeError\<close> (the configuration error), with the flag on \<open>NotImplementedError\<close>.
\<close>

theorem real_book_request_never_returns:
  "real_book_request False rec user_data =
     Inl (RuntimeError
       ''Real integration disabled by configuration (REAL_INTEGRATION_ENABLED=False).'')
   \<and> real_book_request True rec user_data =
     Inl (NotImplementedError
       ''Implement real_book_request with official API call if you have legal access.'')
   \<and> (\<forall>enabled response. real_book_request enabled rec user_data \<noteq> Inr response)"
  by (simp add: real_book_request_def)


section \<open>The claims about the worker pool\<close>




text \<open>
  Claim C2. Whatever the schedule, the records and the requested count, the number of
  workers started is the length of \<open>range(min(threads, len(records)))\<close>: it is
  \<open>min(W, N)\<close> for every \<open>W \<ge> 0\<close>, and never more than \<open>N\<close>.
\<close>

theorem workers_started_min:
  "workers_started ev sched records threads vf = nat (min threads (int (length records)))
   \<and> workers_started ev sched records threads vf \<le> length records
   \<and> (0 \<le> threads \<longrightarrow>
        int (workers_started ev sched records threads vf) = min threads (int (length records)))"
  by (simp add: workers_started_def final_workers)

theorem workers_started_min_witness:
  "(0::int) \<le> 5
   \<and> int (workers_started simulate_check_default id
        [\<lparr>code = ''9900000000000000'', expiry = ''01/2025'', ref = ''123'',
          balance = 0, generated_at = 0\<rparr>,
         \<lparr>code = ''9800000000000000'', expiry = ''02/2026'', ref = ''456'',
          balance = 120, generated_at = 1\<rparr>] 5 []) = 2"
  using workers_started_min [of simulate_check_default id
        "[\<lparr>code = ''9900000000000000'', expiry = ''01/2025'', ref = ''123'',
          balance = 0, generated_at = 0\<rparr>,
         \<lparr>code = ''9800000000000000'', expiry = ''02/2026'', ref = ''456'',
          balance = 120, generated_at = 1\<rparr>]" 5 "[]"]
  by simp





section \<open>A written record read back\<close>

text \<open>The fields the generator produces hold no separator and no whitespace, and the
  balance is short enough to be converted.\<close>

definition plain_record :: "BLSRecord \<Rightarrow> bool" where
  "plain_record r =
     (code r \<noteq> [] \<and> set (code r) \<subseteq> set digits
      \<and> set (expiry r) \<subseteq> set digits \<union> {CHR ''/'', CHR ''-''}
      \<and> set (ref r) \<subseteq> set digits
      \<and> length (str_int (balance r)) \<le> max_str_digits)"

definition fields :: "BLSRecord \<Rightarrow> string \<times> string \<times> string \<times> int" where
  "fields r = (code r, expiry r, ref r, balance r)"

lemma strip_line:
  assumes "s \<noteq> []" and "\<not> is_space (hd s)" and "\<not> is_space (last s)"
  shows "strip (s @ newline) = s"
proof -
  have "is_space (CHR 0x0A)" by (simp add: is_space_def)
  then have "rstrip (s @ newline) = rstrip s"
    by (simp add: rstrip_def newline_def)
  also from assms(1,3) have "dropWhile is_space (rev s) = rev s"
    by (cases s rule: rev_cases) auto
  then have "rstrip s = s" by (simp add: rstrip_def)
  finally have "rstrip (s @ newline) = s" .
  moreover from assms(1,2) have "lstrip s = s"
    by (cases s) (auto simp: lstrip_def)
  ultimately show ?thesis by (simp add: strip_def)
qed

lemma not_bar:
  "set s \<subseteq> set digits \<Longrightarrow> CHR ''|'' \<notin> set s"
  "set s \<subseteq> set digits \<union> {CHR ''/'', CHR ''-''} \<Longrightarrow> CHR ''|'' \<notin> set s"
  "set s \<subseteq> insert CHR ''-'' (set digits) \<Longrightarrow> CHR ''|'' \<notin> set (CHR ''$'' # s)"
  by (auto simp: digits_def)

lemma split_record_str:
  assumes "plain_record r"
  shows "split_on CHR ''|'' (BLSRecord_str r)
         = [code r, expiry r, ref r, CHR ''$'' # str_int (balance r)]"
proof -
  from assms have c: "CHR ''|'' \<notin> set (code r)" and e: "CHR ''|'' \<notin> set (expiry r)"
    and f: "CHR ''|'' \<notin> set (ref r)"
    by (simp_all add: plain_record_def not_bar)
  have b: "CHR ''|'' \<notin> set (CHR ''$'' # str_int (balance r))"
    by (rule not_bar(3) [OF str_int_chars])
  have "BLSRecord_str r
        = code r @ CHR ''|'' # (expiry r @ CHR ''|'' # (ref r @ CHR ''|'' # (CHR ''$'' # str_int (balance r))))"
    by (simp add: BLSRecord_str_def)
  then show ?thesis
    by (simp only: split_on_append [OF c] split_on_append [OF e] split_on_append [OF f]
          split_on_none [OF b])
qed

lemma lstrip_dollar: "lstrip_chars ''$'' (CHR ''$'' # str_int i) = str_int i"
proof -
  have "hd (str_int i) \<noteq> CHR ''$''"
    using str_int_chars [of i] hd_in_set [OF str_int_nonempty, of i] by (auto simp: digits_def)
  then show ?thesis
    using str_int_nonempty [of i] by (cases "str_int i") (simp_all add: lstrip_chars_def)
qed

lemma record_of_record_str:
  assumes "plain_record r"
  shows "record_of_parts t (split_on CHR ''|'' (BLSRecord_str r))
         = Inr (BLSRecord_init (code r) (expiry r) (ref r) (balance r) t)"
proof -
  from assms have "length (str_int (balance r)) \<le> max_str_digits"
    by (simp add: plain_record_def)
  then show ?thesis
    by (simp add: split_record_str [OF assms] record_of_parts_def lstrip_dollar py_int_str_int)
qed

lemma read_record_line:
  assumes "plain_record r"
  shows "strip (BLSRecord_str r @ newline) = BLSRecord_str r" and "BLSRecord_str r \<noteq> []"
proof -
  from assms have ne: "code r \<noteq> []" and cd: "set (code r) \<subseteq> set digits"
    by (simp_all add: plain_record_def)
  then show n: "BLSRecord_str r \<noteq> []" by (simp add: BLSRecord_str_def)
  from ne have "hd (BLSRecord_str r) = hd (code r)" by (simp add: BLSRecord_str_def)
  moreover from hd_in_set [OF ne] cd have "hd (code r) \<in> set digits" by blast
  ultimately have h: "\<not> is_space (hd (BLSRecord_str r))"
    by (simp add: digits_not_space)
  have "last (BLSRecord_str r) = last (str_int (balance r))"
    by (simp add: BLSRecord_str_def str_int_nonempty)
  then have l: "\<not> is_space (last (BLSRecord_str r))"
    using last_str_int_digit [of "balance r"] by (auto dest: digits_not_space)
  from n h l show "strip (BLSRecord_str r @ newline) = BLSRecord_str r" by (rule strip_line)
qed

lemma load_plain_lines:
  assumes "\<forall>r \<in> set rs. plain_record r"
  shows "\<exists>loaded. load_records t k (read_lines (map (\<lambda>r. BLSRecord_str r @ newline) rs)) = Inr loaded
           \<and> map fields loaded = map fields rs"
  using assms
proof (induction rs arbitrary: k)
  case Nil
  show ?case by (simp add: read_lines_def)
next
  case (Cons r rs)
  then have p: "plain_record r" by simp
  from Cons obtain loaded where
    l: "load_records t (Suc k) (read_lines (map (\<lambda>r. BLSRecord_str r @ newline) rs)) = Inr loaded"
    and f: "map fields loaded = map fields rs" by fastforce
  have rl: "read_lines (map (\<lambda>r. BLSRecord_str r @ newline) (r # rs))
            = BLSRecord_str r # read_lines (map (\<lambda>r. BLSRecord_str r @ newline) rs)"
    by (simp add: read_lines_def read_record_line [OF p])
  let ?rest = "read_lines (map (\<lambda>r. BLSRecord_str r @ newline) rs)"
  have "load_records t k (BLSRecord_str r # ?rest)
        = Inr (BLSRecord_init (code r) (expiry r) (ref r) (balance r) (t k) # loaded)"
    by (simp add: split_record_str [OF p]
          record_of_record_str [OF p, unfolded split_record_str [OF p]] l)
  then have "load_records t k (read_lines (map (\<lambda>r. BLSRecord_str r @ newline) (r # rs)))
        = Inr (BLSRecord_init (code r) (expiry r) (ref r) (balance r) (t k) # loaded)"
    by (simp only: rl)
  moreover have "fields (BLSRecord_init (code r) (expiry r) (ref r) (balance r) (t k)) = fields r"
    by (simp add: fields_def BLSRecord_init_def)
  ultimately show ?case
    using f by auto
qed


section \<open>What the generator writes\<close>

lemma random_string_digits: "set (fst (random_string n g)) \<subseteq> set digits"
proof -
  have "digits ! (m mod length digits) \<in> set digits" for m
    by (rule nth_mem) (simp add: digits_def)
  then show ?thesis by (auto simp: random_string_def)
qed

lemma random_string_length: "length (fst (random_string n g)) = n"
  by (simp add: random_string_def)

lemma fmt_02d_chars: "set (fmt_02d i) \<subseteq> insert CHR ''-'' (set digits)"
  using str_int_chars [of i] by (auto simp: fmt_02d_def digits_def)

lemma random_expiry_chars:
  assumes "random_expiry start_year years g = Inr (e, g')"
  shows "set e \<subseteq> set digits \<union> {CHR ''/'', CHR ''-''}"
proof -
  from assms obtain month year where "e = fmt_02d month @ ''/'' @ str_int year"
    by (auto simp: random_expiry_def format_int_def split: sum.splits prod.splits if_splits)
  then show ?thesis
    using fmt_02d_chars [of month] str_int_chars [of year] by auto
qed

lemma generate_loop_plain:
  assumes "generate_loop n start_year now k g = Inr (rs, g')"
  shows "\<forall>r \<in> set rs. plain_record r"
  using assms
proof (induction n arbitrary: k g rs g')
  case 0
  then show ?case by simp
next
  case (Suc n)
  obtain c g1 where c: "random_string 16 g = (c, g1)" by (cases "random_string 16 g")
  from Suc.prems c obtain e g2 where e: "random_expiry start_year 6 g1 = Inr (e, g2)"
    by (auto split: sum.splits)
  obtain f g3 where f: "random_string 3 g2 = (f, g3)" by (cases "random_string 3 g2")
  let ?b = "balance_tiers ! (g3 0 mod length balance_tiers)"
  from Suc.prems c e f obtain rs' where
    rest: "generate_loop n start_year now (Suc k) (shift 1 g3) = Inr (rs', g')"
    and rs: "rs = BLSRecord_init c e f ?b (now k) # rs'"
    by (auto simp: Let_def split: sum.splits)
  have "c = fst (random_string 16 g)" "f = fst (random_string 3 g2)"
    using c f by simp_all
  then have "set c \<subseteq> set digits" "length c = 16" "set f \<subseteq> set digits"
    by (simp_all add: random_string_digits random_string_length)
  moreover then have "c \<noteq> []" by auto
  moreover have "?b \<in> set balance_tiers"
    by (rule nth_mem) (simp add: balance_tiers_def)
  then have "length (str_int ?b) \<le> max_str_digits" by (rule tier_balance_short)
  ultimately have "plain_record (BLSRecord_init c e f ?b (now k))"
    using random_expiry_chars [OF e] by (simp add: plain_record_def BLSRecord_init_def)
  with Suc.IH [OF rest] rs show ?case by simp
qed

lemma generate_blscodes_plain:
  assumes "generate_blscodes count start_year now g = Inr (results, file)"
  shows "(\<forall>r \<in> set results. plain_record r)
         \<and> file = map (\<lambda>r. BLSRecord_str r @ newline) results"
  using assms generate_loop_plain
  by (auto simp: generate_blscodes_def split: sum.splits)

text \<open>For a start year whose six candidate years can be written in 4300 digits, as every
  year of the calendar can, the generator returns.\<close>

lemma random_expiry_total:
  assumes "\<bar>start_year\<bar> + 5 < 10 ^ max_str_digits"
  shows "\<exists>e g'. random_expiry start_year 6 g = Inr (e, g')"
proof -
  let ?year = "start_year + int (g 0 mod 6)"
  have "g 0 mod 6 < 6" by simp
  then have "int (g 0 mod 6) \<le> 5" by linarith
  with assms have "\<bar>?year\<bar> < 10 ^ max_str_digits"
    by linarith
  then have "nat \<bar>?year\<bar> < 10 ^ max_str_digits"
    by (simp add: nat_less_iff)
  then have "length (str_nat (nat \<bar>?year\<bar>)) \<le> max_str_digits"
    by (rule str_nat_length) (simp add: max_str_digits_def)
  then show ?thesis
    by (simp add: random_expiry_def randint_def format_int_def)
qed

lemma generate_loop_total:
  assumes "\<bar>start_year\<bar> + 5 < 10 ^ max_str_digits"
  shows "\<exists>rs g'. generate_loop n start_year now k g = Inr (rs, g') \<and> length rs = n"
proof (induction n arbitrary: k g)
  case 0
  show ?case by simp
next
  case (Suc n)
  obtain c g1 where c: "random_string 16 g = (c, g1)" by (cases "random_string 16 g")
  from random_expiry_total [OF assms]
  obtain e g2 where e: "random_expiry start_year 6 g1 = Inr (e, g2)" by blast
  obtain f g3 where f: "random_string 3 g2 = (f, g3)" by (cases "random_string 3 g2")
  from Suc.IH [of "Suc k" "shift 1 g3"] obtain rs g' where
    "generate_loop n start_year now (Suc k) (shift 1 g3) = Inr (rs, g')" "length rs = n"
    by blast
  with c e f show ?case by (simp add: Let_def)
qed

lemma generate_blscodes_total:
  assumes "\<bar>start_year\<bar> + 5 < 10 ^ max_str_digits"
  shows "\<exists>results. generate_blscodes count start_year now g
     = Inr (results, map (\<lambda>r. BLSRecord_str r @ newline) results)
     \<and> length results = nat count"
  using generate_loop_total [OF assms, of "nat count" now 0 g]
  by (auto simp: generate_blscodes_def)


lemma generate_one:
  "generate_blscodes 1 2025 epoch id
   = Inr ([\<lparr>code = ''0123456789012345'', expiry = ''06/2029'', ref = ''890'',
            balance = 0, generated_at = 0\<rparr>],
          [''0123456789012345|06/2029|890|$0'' @ newline])"
  by code_simp

section \<open>The claim about the round trip\<close>

text \<open>
  Claim C8. Every record \<open>generate_blscodes\<close> returns is written as the line
  \<open>code|expiry|ref|$balance\<close>, and the reader of \<open>handle_simulate_check\<close> (strip, split on
  \<open>|\<close>, strip the \<open>$\<close>, \<open>int\<close>) turns that line into one record with the same identifier,
  expiry, reference and balance; the whole file written reads back as the records
  generated, field for field and in order.
\<close>

theorem generated_record_roundtrip:
  assumes "generate_blscodes count start_year now g = Inr (results, file)"
    and "r \<in> set results"
  shows "BLSRecord_str r @ newline \<in> set file
         \<and> (\<exists>r'. load_records t k (read_lines [BLSRecord_str r @ newline]) = Inr [r']
                \<and> code r' = code r \<and> expiry r' = expiry r \<and> ref r' = ref r
                \<and> balance r' = balance r)
         \<and> (\<exists>loaded. load_records t 0 (read_lines file) = Inr loaded
                \<and> map fields loaded = map fields results)"
proof -
  from generate_blscodes_plain [OF assms(1)]
  have plain: "\<forall>r \<in> set results. plain_record r"
    and fl: "file = map (\<lambda>r. BLSRecord_str r @ newline) results" by simp_all
  from plain assms(2) have p: "plain_record r" by simp
  from fl assms(2) have 1: "BLSRecord_str r @ newline \<in> set file" by auto
  have "read_lines [BLSRecord_str r @ newline] = [BLSRecord_str r]"
    by (simp add: read_lines_def read_record_line [OF p])
  then have "load_records t k (read_lines [BLSRecord_str r @ newline])
             = Inr [BLSRecord_init (code r) (expiry r) (ref r) (balance r) (t k)]"
    by (simp add: split_record_str [OF p]
          record_of_record_str [OF p, unfolded split_record_str [OF p]])
  then have 2: "\<exists>r'. load_records t k (read_lines [BLSRecord_str r @ newline]) = Inr [r']
                \<and> code r' = code r \<and> expiry r' = expiry r \<and> ref r' = ref r
                \<and> balance r' = balance r"
    by (simp add: BLSRecord_init_def)
  from load_plain_lines [OF plain, of t 0]
  have 3: "\<exists>loaded. load_records t 0 (read_lines file) = Inr loaded
                \<and> map fields loaded = map fields results"
    unfolding fl .
  from 1 2 3 show ?thesis by blast
qed

theorem generated_record_roundtrip_witness:
  "generate_blscodes 1 2025 epoch id
     = Inr ([\<lparr>code = ''0123456789012345'', expiry = ''06/2029'', ref = ''890'',
              balance = 0, generated_at = 0\<rparr>],
            [''0123456789012345|06/2029|890|$0'' @ newline])
   \<and> \<lparr>code = ''0123456789012345'', expiry = ''06/2029'', ref = ''890'',
        balance = 0, generated_at = 0\<rparr>
       \<in> set [\<lparr>code = ''0123456789012345'', expiry = ''06/2029'', ref = ''890'',
                 balance = 0, generated_at = 0\<rparr>]
   \<and> (\<exists>r'. load_records epoch 0
               (read_lines [BLSRecord_str \<lparr>code = ''0123456789012345'', expiry = ''06/2029'',
                  ref = ''890'', balance = 0, generated_at = 0\<rparr> @ newline])
               = Inr [r']
            \<and> code r' = ''0123456789012345'' \<and> expiry r' = ''06/2029'' \<and> ref r' = ''890''
            \<and> balance r' = 0)"
proof -
  let ?r = "\<lparr>code = ''0123456789012345'', expiry = ''06/2029'', ref = ''890'',
             balance = 0, generated_at = 0\<rparr>"
  have m: "?r \<in> set [?r]" by simp
  from generated_record_roundtrip [OF generate_one m, of epoch 0]
  have "\<exists>r'. load_records epoch 0 (read_lines [BLSRecord_str ?r @ newline]) = Inr [r']
            \<and> code r' = code ?r \<and> expiry r' = expiry ?r \<and> ref r' = ref ?r
            \<and> balance r' = balance ?r"
    by blast
  then have "\<exists>r'. load_records epoch 0 (read_lines [BLSRecord_str ?r @ newline]) = Inr [r']
            \<and> code r' = ''0123456789012345'' \<and> expiry r' = ''06/2029'' \<and> ref r' = ''890''
            \<and> balance r' = 0"
    by (simp only: BLSRecord.simps)
  with generate_one m show ?thesis by blast
qed


section \<open>The claims about the command handlers\<close>

lemma upt_0_8: "[0..<8] = [0, 1, 2, 3, 4, 5, 6, Suc 6]"
  by code_simp

lemma read_sample_line:
  "read_lines [''0123456789012345|05/2029|890|$120'' @ newline]
   = [''0123456789012345|05/2029|890|$120'']"
  by (simp add: read_lines_def strip_def lstrip_def rstrip_def is_space_def newline_def)

lemma parse_sample_line:
  "record_of_parts 0 (split_on CHR ''|'' ''0123456789012345|05/2029|890|$120'')
   = Inr \<lparr>code = ''0123456789012345'', expiry = ''05/2029'', ref = ''890'',
           balance = 120, generated_at = 0\<rparr>"
  by (simp add: record_of_parts_def lstrip_chars_def py_int_def int_strip_def is_int_space_def
      literal_char_def max_str_digits_def is_digit_def digits_def parse_nat_def digit_value_def BLSRecord_init_def Let_def)

lemma attempt_loop_simulated:
  assumes "simulated_attempts now k g sample = (rs, err)"
  shows "attempt_loop False use_real now k g sample out vf cs
         = \<lparr>printed = out @ concat (map attempt_report rs),
            hits = vf @ concat (map booked_line rs),
            raised = err,
            calls = cs @ map (\<lambda>a. Simulation_placeholder (fst a)) rs\<rparr>"
  using assms
proof (induction sample arbitrary: k g out vf cs rs err)
  case Nil
  then show ?case by simp
next
  case (Cons line rest)
  show ?case
  proof (cases "record_of_parts (now k) (split_on CHR ''|'' line)")
    case (Inl e)
    with Cons.prems show ?thesis by auto
  next
    case (Inr rec)
    obtain resp g' where ph: "real_book_request_simulation_placeholder rec [] g = (resp, g')"
      by (cases "real_book_request_simulation_placeholder rec [] g")
    obtain rs' err' where rest: "simulated_attempts now (Suc k) g' rest = (rs', err')"
      by (cases "simulated_attempts now (Suc k) g' rest")
    from Cons.prems Inr ph rest have rs: "rs = (rec, resp) # rs'" and err: "err = err'"
      by simp_all
    from Inr ph show ?thesis
      by (simp add: Let_def Cons.IH [OF rest] rs err attempt_report_def booked_line_def
          accepted_booking_def)
  qed
qed

lemma placeholder_accepts:
  assumes "real_book_request_simulation_placeholder rec ud g = (resp, g')"
    and "120 \<le> balance rec"
  shows "accepted_booking (rec, resp)"
  using assms
  by (auto simp: real_book_request_simulation_placeholder_def accepted_booking_def Let_def
      split: prod.splits)

lemma simulated_attempts_accept:
  assumes "simulated_attempts now k g sample = (rs, err)" and "a \<in> set rs"
    and "120 \<le> balance (fst a)"
  shows "accepted_booking a"
  using assms(1,2)
proof (induction sample arbitrary: k g rs err)
  case Nil
  then show ?case by simp
next
  case (Cons line rest)
  from Cons.prems obtain rec resp g' rs' err' where
    ph: "real_book_request_simulation_placeholder rec [] g = (resp, g')"
    and rest: "simulated_attempts now (Suc k) g' rest = (rs', err')"
    and rs: "rs = (rec, resp) # rs'"
    by (auto split: sum.splits prod.splits)
  from Cons.prems(2) rs consider "a = (rec, resp)" | "a \<in> set rs'" by auto
  then show ?case
  proof cases
    case 1
    with placeholder_accepts [OF ph] assms(3) show ?thesis by simp
  next
    case 2
    from Cons.IH [OF rest this] show ?thesis .
  qed
qed

lemma attempt_report_lines:
  assumes "line \<in> set (concat (map attempt_report rs))"
  shows "\<not> starts_with ''Real integration'' line"
  using assms by (auto simp: attempt_report_def starts_with_def newline_def split: if_splits)

lemma load_records_skips_short:
  "load_records now k (filter (\<lambda>line. 4 \<le> length (split_on CHR ''|'' line)) ls)
   = load_records now k ls"
  by (induction ls arbitrary: k) (simp_all add: Let_def split: sum.splits)

lemma check_flow_skips_short_line:
  "load_records epoch 0
     (read_lines [''12|34'' @ newline, ''0123456789012345|05/2029|890|$120'' @ newline])
   = Inr [\<lparr>code = ''0123456789012345'', expiry = ''05/2029'', ref = ''890'',
            balance = 120, generated_at = 0\<rparr>]"
  by (simp add: read_lines_def strip_def lstrip_def rstrip_def is_space_def newline_def
      record_of_parts_def lstrip_chars_def py_int_def int_strip_def is_int_space_def
      literal_char_def max_str_digits_def is_digit_def digits_def parse_nat_def
      digit_value_def BLSRecord_init_def epoch_def Let_def)


lemma multi_thread_check_no_records: "multi_thread_check sched [] threads vf = Inr ([], vf)"
proof -
  have "has_returned (final_pool simulate_check_default sched [] threads vf)"
    unfolding final_returns_iff by simp
  from returned_result [OF this] show ?thesis
    by (auto simp: multi_thread_check_def)
qed

lemma check_of_empty_file:
  assumes "fs (chosen_path inp) = Some []"
  shows "handle_simulate_check now sched fs inp threads vf
         = Inr ([''Loaded 0 records from '' @ chosen_path inp,
                 ''Simulation complete. 0 valid(s) found. See bls_valid_hits.txt''],
                Inr vf)"
  using assms
  by (simp add: handle_simulate_check_def read_lines_def multi_thread_check_no_records
      str_int_def str_nat.simps digit_char_def digits_def VALID_OUTPUT_FILE_def)

text \<open>
  Claim C6, as stated: with \<open>--use-real\<close> and the flag off, every attempt reports a
  configuration error, no appointment id is produced and the hits file is unchanged. The
  handler guards the real call by \<open>REAL_INTEGRATION_ENABLED and args.use_real\<close>, so with the
  flag off the attempt is a simulated booking: for a record with balance 120 it prints an
  appointment id and appends a \<open>BOOKED_SIM\<close> line to the hits file.
\<close>

theorem use_real_disabled_books_by_simulation:
  "handle_attempt_book REAL_INTEGRATION_ENABLED epoch id
     (one_file [''0123456789012345|05/2029|890|$120'' @ newline]) None 5 True ''old''
   = \<lparr>printed = [newline @ ''=== Attempting booking for 0123456789012345 (simulated) ==='',
                  ''Simulated booking success: appointment id SIM-23456789''],
      hits = ''oldBOOKED_SIM|SIM-23456789|0123456789012345|05/2029|890|$120'' @ newline,
      raised = None,
      calls = [Simulation_placeholder
                 \<lparr>code = ''0123456789012345'', expiry = ''05/2029'', ref = ''890'',
                  balance = 120, generated_at = 0\<rparr>]\<rparr>"
  by (simp add: handle_attempt_book_def REAL_INTEGRATION_ENABLED_def one_file_def chosen_path_def
      epoch_def read_sample_line [simplified] parse_sample_line [simplified]
      real_book_request_simulation_placeholder_def random_string_def shift_def digits_def
      dict_get_def BLSRecord_str_def str_int_def str_nat.simps digit_char_def Let_def upt_0_8)

text \<open>
  Claim C6, amended: when real integration is requested (\<open>use_real\<close>) while the flag is
  off, as \<open>REAL_INTEGRATION_ENABLED\<close> is, \<open>real_book_request\<close> is not called and no
  configuration error is reported: every sampled attempt is a simulated booking. For the
  sample drawn from an existing file, the handler calls the simulation placeholder on each
  record in turn and nothing else, prints for each attempt its heading and the outcome of
  the simulation, none of the lines being a report of the real integration, and appends
  to the hits file one \<open>BOOKED_SIM\<close> line, with its appointment id, for each attempt the
  simulation accepts, as it does every record with a balance of 120 or more; it ends as the
  simulated attempts end. Whether \<open>use_real\<close> is set makes no difference to any of this.
\<close>

theorem use_real_disabled_runs_simulation:
  assumes "\<not> enabled"
    and "fs (chosen_path inp) = Some f"
    and "0 \<le> attempts"
    and "random_sample g (read_lines f) (nat (min attempts (int (length (read_lines f)))))
         = (sample, g')"
    and "simulated_attempts now 0 g' sample = (rs, err)"
  shows "handle_attempt_book enabled now g fs inp attempts use_real vf
         = \<lparr>printed = concat (map attempt_report rs),
            hits = vf @ concat (map booked_line rs),
            raised = err,
            calls = map (\<lambda>a. Simulation_placeholder (fst a)) rs\<rparr>
         \<and> (\<forall>rec. Real_book_request rec
                \<notin> set (calls (handle_attempt_book enabled now g fs inp attempts use_real vf)))
         \<and> (\<forall>line \<in> set (printed (handle_attempt_book enabled now g fs inp attempts use_real vf)).
                \<not> starts_with ''Real integration'' line)
         \<and> (\<forall>a \<in> set rs. 120 \<le> balance (fst a) \<longrightarrow> booked_line a \<noteq> [])
         \<and> handle_attempt_book enabled now g fs inp attempts use_real vf
           = handle_attempt_book enabled now g fs inp attempts False vf"
proof -
  let ?sim = "\<lparr>printed = concat (map attempt_report rs),
               hits = vf @ concat (map booked_line rs),
               raised = err,
               calls = map (\<lambda>a. Simulation_placeholder (fst a)) rs\<rparr>"
  from assms(3) have n: "\<not> min attempts (int (length (read_lines f))) < 0" by simp
  from assms(1) have off: "enabled = False" by simp
  have run: "handle_attempt_book enabled now g fs inp attempts u vf = ?sim" for u
    using attempt_loop_simulated [OF assms(5), of u "[]" vf "[]"] assms(2,4) n
    by (simp add: handle_attempt_book_def Let_def off)
  have 1: "\<forall>rec. Real_book_request rec \<notin> set (calls ?sim)" by auto
  have 2: "\<forall>line \<in> set (printed ?sim). \<not> starts_with ''Real integration'' line"
    using attempt_report_lines [of _ rs] by simp
  have 3: "\<forall>a \<in> set rs. 120 \<le> balance (fst a) \<longrightarrow> booked_line a \<noteq> []"
    using simulated_attempts_accept [OF assms(5)] by (auto simp: booked_line_def)
  from 1 2 3 show ?thesis unfolding run by blast
qed

theorem use_real_disabled_runs_simulation_witness:
  "\<not> REAL_INTEGRATION_ENABLED
   \<and> one_file [''0123456789012345|05/2029|890|$120'' @ newline] (chosen_path None)
       = Some [''0123456789012345|05/2029|890|$120'' @ newline]
   \<and> (0::int) \<le> 5
   \<and> random_sample id (read_lines [''0123456789012345|05/2029|890|$120'' @ newline])
        (nat (min 5 (int (length (read_lines [''0123456789012345|05/2029|890|$120'' @ newline])))))
       = ([''0123456789012345|05/2029|890|$120''], shift 1 id)
   \<and> simulated_attempts epoch 0 (shift 1 id) [''0123456789012345|05/2029|890|$120'']
       = ([(\<lparr>code = ''0123456789012345'', expiry = ''05/2029'', ref = ''890'',
              balance = 120, generated_at = 0\<rparr>,
            [(''status'', ''success''), (''message'', ''Simulated booking confirmed''),
             (''appointment_id'', ''SIM-23456789''),
             (''record'', ''0123456789012345|05/2029|890|$120'')])], None)
   \<and> handle_attempt_book REAL_INTEGRATION_ENABLED epoch id
        (one_file [''0123456789012345|05/2029|890|$120'' @ newline]) None 5 True ''old''
       = \<lparr>printed = concat (map attempt_report
              [(\<lparr>code = ''0123456789012345'', expiry = ''05/2029'', ref = ''890'',
                 balance = 120, generated_at = 0\<rparr>,
               [(''status'', ''success''), (''message'', ''Simulated booking confirmed''),
                (''appointment_id'', ''SIM-23456789''),
                (''record'', ''0123456789012345|05/2029|890|$120'')])]),
          hits = ''old'' @ concat (map booked_line
              [(\<lparr>code = ''0123456789012345'', expiry = ''05/2029'', ref = ''890'',
                 balance = 120, generated_at = 0\<rparr>,
               [(''status'', ''success''), (''message'', ''Simulated booking confirmed''),
                (''appointment_id'', ''SIM-23456789''),
                (''record'', ''0123456789012345|05/2029|890|$120'')])]),
          raised = None,
          calls = [Simulation_placeholder
                     \<lparr>code = ''0123456789012345'', expiry = ''05/2029'', ref = ''890'',
                      balance = 120, generated_at = 0\<rparr>]\<rparr>"
proof -
  let ?line = "''0123456789012345|05/2029|890|$120''"
  let ?rec = "\<lparr>code = ''0123456789012345'', expiry = ''05/2029'', ref = ''890'',
               balance = 120, generated_at = 0\<rparr>"
  let ?resp = "[(''status'', ''success''), (''message'', ''Simulated booking confirmed''),
                (''appointment_id'', ''SIM-23456789''),
                (''record'', ''0123456789012345|05/2029|890|$120'')]"
  have off: "\<not> REAL_INTEGRATION_ENABLED" by (simp add: REAL_INTEGRATION_ENABLED_def)
  have fl: "one_file [?line @ newline] (chosen_path None) = Some [?line @ newline]"
    by (simp add: one_file_def chosen_path_def)
  have at: "(0::int) \<le> 5" by simp
  have sm: "random_sample id (read_lines [?line @ newline])
              (nat (min 5 (int (length (read_lines [?line @ newline])))))
            = ([?line], shift 1 id)"
    by (simp add: read_sample_line [simplified])
  have at': "simulated_attempts epoch 0 (shift 1 id) [?line] = ([(?rec, ?resp)], None)"
    by (simp add: epoch_def parse_sample_line [simplified]
        real_book_request_simulation_placeholder_def random_string_def shift_def digits_def
        BLSRecord_str_def str_int_def str_nat.simps digit_char_def Let_def upt_0_8)
  from use_real_disabled_runs_simulation
         [where fs = "one_file [?line @ newline]" and inp = None and use_real = True
            and vf = "''old''", OF off fl at sm at']
  have "handle_attempt_book REAL_INTEGRATION_ENABLED epoch id
          (one_file [?line @ newline]) None 5 True ''old''
        = \<lparr>printed = concat (map attempt_report [(?rec, ?resp)]),
           hits = ''old'' @ concat (map booked_line [(?rec, ?resp)]),
           raised = None,
           calls = map (\<lambda>a. Simulation_placeholder (fst a)) [(?rec, ?resp)]\<rparr>"
    by blast
  then have "handle_attempt_book REAL_INTEGRATION_ENABLED epoch id
          (one_file [?line @ newline]) None 5 True ''old''
        = \<lparr>printed = concat (map attempt_report [(?rec, ?resp)]),
           hits = ''old'' @ concat (map booked_line [(?rec, ?resp)]),
           raised = None,
           calls = [Simulation_placeholder ?rec]\<rparr>"
    by (simp only: list.map fst_conv)
  with off fl at sm at' show ?thesis by blast
qed


text \<open>
  Claim C9: a line with fewer than four fields is skipped, in the check flow and in the
  attempt-book flow. The check flow does so (\<open>load_records_skips_short\<close>,
  \<open>check_flow_skips_short_line\<close>). \<open>handle_attempt_book\<close> has no such guard: on a sampled
  line of two fields \<open>parts[2]\<close> raises \<open>IndexError\<close>, which ends the handler before the
  well-formed line is attempted.
\<close>

theorem attempt_book_short_line_raises:
  "handle_attempt_book False epoch id
     (one_file [''12|34'' @ newline, ''0123456789012345|05/2029|890|$120'' @ newline])
     None 5 False ''old''
   = \<lparr>printed = [], hits = ''old'', raised = Some (IndexError ''list index out of range''),
      calls = []\<rparr>"
  by (simp add: handle_attempt_book_def one_file_def chosen_path_def epoch_def
      read_lines_def strip_def lstrip_def rstrip_def is_space_def newline_def
      record_of_parts_def shift_def Let_def eval_nat_numeral)



end
